theory Spec2Isabelle
  imports Complex_Main "HOL-Library.Log_Nat"
begin

section \<open>JavaScript numbers\<close>

text \<open>
  The controller computes with JavaScript numbers, the binary64 values of IEEE 754. A
  finite value is modelled as the real it denotes; \<open>Infinity\<close>, \<open>-Infinity\<close> and
  \<open>NaN\<close> are values of their own. The operators \<open>+\<close>, \<open>-\<close>, \<open>*\<close>
  and \<open>/\<close> return the exact result rounded to the nearest binary64 value, ties to the
  even significand, and an infinity when the rounded result leaves the range. Negation,
  \<open>Math.abs\<close>, \<open>Math.max\<close>, \<open>Math.round\<close> and the comparisons are
  exact; every comparison with \<open>NaN\<close> is false. A literal of the source that is no
  binary64 value (\<open>0.8\<close>) is the binary64 value nearest to it. The sign of zero is not
  modelled: every zero divisor is read as \<open>+0\<close> (the divisors of the controller are
  an absolute value, a difference of two time stamps, a maximum with 1 and the bandwidth
  estimate).
\<close>

datatype jsnum = Fin real | PInf | NInf | NaN

subsection \<open>Rounding to binary64\<close>

text \<open>Rounding a real to an integer, a tie going to the even one.\<close>

definition round_even :: "real \<Rightarrow> int" where
  "round_even z =
     (let f = \<lfloor>z\<rfloor>; d = z - of_int f
      in if d < 1 / 2 then f else if 1 / 2 < d then f + 1 else if even f then f else f + 1)"

text \<open>
  The binary exponent of a positive real: \<open>2 ^ ilog2 x \<le> x < 2 ^ (ilog2 x + 1)\<close>,
  from the number of bits of an integer.
\<close>

definition ilog2 :: "real \<Rightarrow> int" where
  "ilog2 x = (if 1 \<le> x then bitlen \<lfloor>x\<rfloor> - 1 else - bitlen (\<lceil>1 / x\<rceil> - 1))"

text \<open>
  The exponent of the last of the 53 bits of the significand of a real that is not 0;
  it stops at -1074, the exponent of the subnormal values.
\<close>

definition ulp_exponent :: "real \<Rightarrow> int" where
  "ulp_exponent x = max (ilog2 \<bar>x\<bar> - 52) (- 1074)"

text \<open>\<open>scale2 x n\<close> is \<open>x\<close> times the \<open>n\<close>-th power of 2.\<close>

definition scale2 :: "real \<Rightarrow> int \<Rightarrow> real" where
  "scale2 x n = (if 0 \<le> n then x * 2 ^ nat n else x / 2 ^ nat (- n))"

text \<open>The nearest real with a significand of 53 bits, as if the exponent had no upper bound.\<close>

definition nearest64 :: "real \<Rightarrow> real" where
  "nearest64 x =
     (if x = 0 then 0
      else scale2 (of_int (round_even (scale2 x (- ulp_exponent x)))) (ulp_exponent x))"

text \<open>The binary64 value of a real: an infinity from the 1024th power of 2 on.\<close>

definition round64 :: "real \<Rightarrow> jsnum" where
  "round64 x =
     (let r = nearest64 x
      in if 2 ^ 1024 \<le> r then PInf else if r \<le> - (2 ^ 1024) then NInf else Fin r)"

subsection \<open>The operators\<close>

fun sign_of :: "jsnum \<Rightarrow> real" where
  "sign_of (Fin x) = sgn x"
| "sign_of PInf = 1"
| "sign_of NInf = - 1"
| "sign_of NaN = 0"

definition inf_of_sign :: "real \<Rightarrow> jsnum" where
  "inf_of_sign s = (if 0 < s then PInf else if s < 0 then NInf else NaN)"

fun js_neg :: "jsnum \<Rightarrow> jsnum" where
  "js_neg (Fin x) = Fin (- x)"
| "js_neg PInf = NInf"
| "js_neg NInf = PInf"
| "js_neg NaN = NaN"

fun js_add :: "jsnum \<Rightarrow> jsnum \<Rightarrow> jsnum" where
  "js_add (Fin x) (Fin y) = round64 (x + y)"
| "js_add NaN b = NaN"
| "js_add a NaN = NaN"
| "js_add PInf NInf = NaN"
| "js_add NInf PInf = NaN"
| "js_add PInf b = PInf"
| "js_add a PInf = PInf"
| "js_add NInf b = NInf"
| "js_add a NInf = NInf"

fun js_mul :: "jsnum \<Rightarrow> jsnum \<Rightarrow> jsnum" where
  "js_mul (Fin x) (Fin y) = round64 (x * y)"
| "js_mul NaN b = NaN"
| "js_mul a NaN = NaN"
| "js_mul a b = inf_of_sign (sign_of a * sign_of b)"

fun js_div :: "jsnum \<Rightarrow> jsnum \<Rightarrow> jsnum" where
  "js_div (Fin x) (Fin y) = (if y = 0 then inf_of_sign (sgn x) else round64 (x / y))"
| "js_div NaN b = NaN"
| "js_div a NaN = NaN"
| "js_div (Fin x) b = Fin 0"
| "js_div a (Fin y) = (if y < 0 then js_neg a else a)"
| "js_div a b = NaN"

fun js_less :: "jsnum \<Rightarrow> jsnum \<Rightarrow> bool" where
  "js_less (Fin x) (Fin y) = (x < y)"
| "js_less NaN b = False"
| "js_less a NaN = False"
| "js_less a NInf = False"
| "js_less PInf b = False"
| "js_less NInf b = True"
| "js_less a PInf = True"

fun js_abs :: "jsnum \<Rightarrow> jsnum" where
  "js_abs (Fin x) = Fin \<bar>x\<bar>"
| "js_abs NaN = NaN"
| "js_abs a = PInf"

text \<open>The operators \<open>+ - * / < <=\<close> and \<open>Math.abs\<close> on JavaScript numbers.\<close>

instantiation jsnum :: "{plus, minus, uminus, times, inverse, ord, abs}"
begin

definition uminus_jsnum :: "jsnum \<Rightarrow> jsnum" where
  "uminus_jsnum a = js_neg a"

definition plus_jsnum :: "jsnum \<Rightarrow> jsnum \<Rightarrow> jsnum" where
  "plus_jsnum a b = js_add a b"

definition minus_jsnum :: "jsnum \<Rightarrow> jsnum \<Rightarrow> jsnum" where
  "minus_jsnum a b = js_add a (js_neg b)"

definition times_jsnum :: "jsnum \<Rightarrow> jsnum \<Rightarrow> jsnum" where
  "times_jsnum a b = js_mul a b"

definition divide_jsnum :: "jsnum \<Rightarrow> jsnum \<Rightarrow> jsnum" where
  "divide_jsnum a b = js_div a b"

definition inverse_jsnum :: "jsnum \<Rightarrow> jsnum" where
  "inverse_jsnum a = js_div (Fin 1) a"

definition less_jsnum :: "jsnum \<Rightarrow> jsnum \<Rightarrow> bool" where
  "less_jsnum a b = js_less a b"

definition less_eq_jsnum :: "jsnum \<Rightarrow> jsnum \<Rightarrow> bool" where
  "less_eq_jsnum a b = (js_less a b \<or> (a = b \<and> a \<noteq> NaN))"

definition abs_jsnum :: "jsnum \<Rightarrow> jsnum" where
  "abs_jsnum a = js_abs a"

instance ..

end

text \<open>\<open>Math.max\<close> of two arguments: \<open>NaN\<close> if either is \<open>NaN\<close>.\<close>

definition Math_max :: "jsnum \<Rightarrow> jsnum \<Rightarrow> jsnum" where
  "Math_max a b = (if a = NaN \<or> b = NaN then NaN else if a < b then b else a)"

text \<open>\<open>Math.round\<close>: the nearest integer, a half rounding up.\<close>

fun Math_round :: "jsnum \<Rightarrow> jsnum" where
  "Math_round (Fin x) = Fin (of_int \<lfloor>x + 1 / 2\<rfloor>)"
| "Math_round a = a"

section \<open>The objects the controller reads\<close>

text \<open>
  \<open>hls.levels[i]\<close>: a quality level with its bitrate and, once its playlist is loaded,
  its details.
\<close>

record level_details =
  live :: bool

record hls_level =
  bitrate :: jsnum
  details :: "level_details option"

record config =
  abrEwmaFastLive :: jsnum
  abrEwmaSlowLive :: jsnum
  abrEwmaFastVoD :: jsnum
  abrEwmaSlowVoD :: jsnum
  abrEwmaDefaultEstimate :: jsnum
  maxBufferHole :: jsnum

text \<open>\<open>hls.media\<close>: the media element.\<close>

record media =
  paused :: bool
  playbackRate :: jsnum
  readyState :: nat
  currentTime :: jsnum
  buffered :: "(jsnum \<times> jsnum) list"

text \<open>
  The statistics of a loader (\<open>frag.loader.stats\<close> and the \<open>data.stats\<close> of
  \<open>FRAG_LOADED\<close>); \<open>None\<close> is \<open>undefined\<close>.
\<close>

record stats =
  stats_aborted :: "bool option"
  stats_trequest :: jsnum
  stats_loaded :: jsnum

text \<open>
  Modelled from the spec: the loader class behind \<open>frag.loader\<close> is missing. It is
  the cancellation handle of the request; the model keeps its statistics and counts the
  calls of \<open>abort()\<close> it received.
\<close>

record loader =
  loader_stats :: "stats option"
  abort_calls :: nat

record frag =
  frag_type :: string
  level :: int
  duration :: jsnum
  loaded :: jsnum
  trequest :: jsnum
  autoLevel :: bool
  loadCounter :: int
  loader :: "loader option"

datatype event = FRAG_LOADING | FRAG_LOADED | ERROR | FRAG_LOAD_EMERGENCY_ABORTED

datatype error_details = FRAG_LOAD_ERROR | FRAG_LOAD_TIMEOUT | OTHER_ERROR_DETAILS

text \<open>
  Modelled from the spec: the class of the \<open>hls\<close> object (the orchestrator) is
  missing. The model keeps what the controller reads of it (\<open>levels\<close>,
  \<open>config\<close>, \<open>media\<close>) and records what the controller does to it: the
  value assigned to \<open>hls.nextLoadLevel\<close> and the events passed to
  \<open>hls.trigger\<close>, each with the fragment it carries as it is at that moment.
\<close>

record hls =
  levels :: "hls_level list option"
  config :: config
  media :: "media option"
  assigned_nextLoadLevel :: int
  triggered :: "(event \<times> frag) list"

text \<open>
  Modelled from the spec: the class \<open>EwmaBandWidthEstimator\<close> is missing. The spec
  gives its interface, \<open>sample(elapsedMs, bytes)\<close> and an estimate in bits per
  second, and leaves its smoothing out. The model keeps what it was constructed with and
  the samples it was fed, in order; what it answers to \<open>getEstimate()\<close> from them is a
  parameter \<open>getEstimate\<close> of the functions that ask.
\<close>

record estimator =
  ewma_slow :: jsnum
  ewma_fast :: jsnum
  default_estimate :: jsnum
  samples :: "(jsnum \<times> jsnum) list"

definition new_EwmaBandWidthEstimator :: "jsnum \<Rightarrow> jsnum \<Rightarrow> jsnum \<Rightarrow> estimator" where
  "new_EwmaBandWidthEstimator slow fast dflt =
     \<lparr>ewma_slow = slow, ewma_fast = fast, default_estimate = dflt, samples = []\<rparr>"

definition sample :: "jsnum \<Rightarrow> jsnum \<Rightarrow> estimator \<Rightarrow> estimator" where
  "sample durationMs numBytes est = est\<lparr>samples := samples est @ [(durationMs, numBytes)]\<rparr>"

section \<open>The controller\<close>

text \<open>
  The fields of \<open>AbrController\<close>; \<open>u_autoLevelCapping\<close> and \<open>u_nextAutoLevel\<close> are
  \<open>_autoLevelCapping\<close> and \<open>_nextAutoLevel\<close>. \<open>timer\<close>, \<open>bwEstimator\<close> and
  \<open>fragCurrent\<close> are \<open>undefined\<close> (\<open>None\<close>) until assigned. \<open>fragCurrent\<close> is a
  reference to an object of the orchestrator: the record held here is that object as it is
  now. \<open>intervals\<close> are the interval timers of the runtime that are alive, and
  \<open>timerSeq\<close> the last handle \<open>setInterval\<close> gave out (handles are positive).
\<close>

record abr =
  lastLoadedFragLevel :: int
  u_autoLevelCapping :: int
  u_nextAutoLevel :: int
  hls :: hls
  timer :: "nat option"
  bwEstimator :: "estimator option"
  fragCurrent :: "frag option"
  intervals :: "nat list"
  timerSeq :: nat

text \<open>What a \<open>TypeError\<close> was raised on: the value that was \<open>undefined\<close>.\<close>

datatype undefined_ref = FragCurrent | BwEstimator | Levels | LevelAt int | DetailsAt int

datatype error = TypeError undefined_ref

text \<open>
  A handler returns, or throws and leaves the state as it was at the throw.
\<close>

datatype outcome = Done abr | Threw error abr

definition constructor :: "hls \<Rightarrow> abr" where
  "constructor h =
     \<lparr>lastLoadedFragLevel = 0, u_autoLevelCapping = - 1, u_nextAutoLevel = - 1, hls = h,
      timer = None, bwEstimator = None, fragCurrent = None, intervals = [], timerSeq = 0\<rparr>"

text \<open>The truth value of \<open>this.timer\<close>: \<open>undefined\<close>, \<open>null\<close> and 0 are false.\<close>

definition truthy_timer :: "nat option \<Rightarrow> bool" where
  "truthy_timer t = (case t of None \<Rightarrow> False | Some n \<Rightarrow> n \<noteq> 0)"

text \<open>
  \<open>setInterval\<close> and \<open>clearInterval\<close> of the runtime: a new timer gets a new
  handle, clearing a handle ends the timer that has it.
\<close>

definition setInterval :: "abr \<Rightarrow> nat \<times> abr" where
  "setInterval s =
     (let h = Suc (timerSeq s) in (h, s\<lparr>intervals := h # intervals s, timerSeq := h\<rparr>))"

definition clearInterval :: "nat \<Rightarrow> abr \<Rightarrow> abr" where
  "clearInterval h s = s\<lparr>intervals := removeAll h (intervals s)\<rparr>"

definition clearTimer :: "abr \<Rightarrow> abr" where
  "clearTimer s =
     (if truthy_timer (timer s)
      then (case timer s of
              Some h \<Rightarrow> (clearInterval h s)\<lparr>timer := None\<rparr>
            | None \<Rightarrow> s)
      else s)"

text \<open>
  What \<open>clearTimer\<close> is to achieve, between the state \<open>s\<close> before and the
  state \<open>s'\<close> after: \<open>this.timer\<close> holds no handle, and the interval timer
  whose handle it held is not alive any more.
\<close>

definition disarmed :: "abr \<Rightarrow> abr \<Rightarrow> bool" where
  "disarmed s s' =
     (\<not> truthy_timer (timer s')
      \<and> intervals s' =
          (case timer s of
             None \<Rightarrow> intervals s
           | Some h \<Rightarrow> if h \<noteq> 0 then removeAll h (intervals s) else intervals s))"

text \<open>\<open>destroy\<close>; the part of the base class \<open>EventHandler\<close> is not modelled.\<close>

definition destroy :: "abr \<Rightarrow> abr" where
  "destroy s = clearTimer s"

text \<open>\<open>xs[i]\<close> of an array without holes: \<open>undefined\<close> outside \<open>0 .. length - 1\<close>.\<close>

definition at_index :: "'a list \<Rightarrow> int \<Rightarrow> 'a option" where
  "at_index xs i = (if 0 \<le> i \<and> i < int (length xs) then Some (xs ! nat i) else None)"

text \<open>\<open>levels[i]\<close> where \<open>levels\<close> itself may be \<open>undefined\<close>.\<close>

definition level_at :: "hls_level list option \<Rightarrow> int \<Rightarrow> error + hls_level" where
  "level_at lvls i =
     (case lvls of
        None \<Rightarrow> Inl (TypeError Levels)
      | Some ls \<Rightarrow> (case at_index ls i of
                     None \<Rightarrow> Inl (TypeError (LevelAt i))
                   | Some l \<Rightarrow> Inr l))"

text \<open>
  \<open>onFragLoading\<close>. \<open>now\<close> is what \<open>performance.now()\<close> returns. The timer is armed
  before the estimator is constructed, so a throw in the construction leaves it armed.
\<close>

definition lazy_init :: "frag \<Rightarrow> abr \<Rightarrow> error + abr" where
  "lazy_init frag s =
     (case bwEstimator s of
        Some est \<Rightarrow> Inr s
      | None \<Rightarrow>
          (case level_at (levels (hls s)) (level frag) of
             Inl e \<Rightarrow> Inl e
           | Inr l \<Rightarrow>
               (case details l of
                  None \<Rightarrow> Inl (TypeError (DetailsAt (level frag)))
                | Some d \<Rightarrow>
                    let cfg = config (hls s);
                        isLive = live d;
                        ewmaFast = (if isLive then abrEwmaFastLive cfg else abrEwmaFastVoD cfg);
                        ewmaSlow = (if isLive then abrEwmaSlowLive cfg else abrEwmaSlowVoD cfg)
                    in Inr (s\<lparr>bwEstimator :=
                                Some (new_EwmaBandWidthEstimator ewmaSlow ewmaFast
                                        (abrEwmaDefaultEstimate cfg))\<rparr>))))"

definition onFragLoading :: "jsnum \<Rightarrow> frag \<Rightarrow> abr \<Rightarrow> outcome" where
  "onFragLoading now frag s =
     (if frag_type frag = ''main'' then
        let s1 = (if \<not> truthy_timer (timer s)
                  then (case setInterval s of (h, s') \<Rightarrow> s'\<lparr>timer := Some h\<rparr>)
                  else s)
        in (case lazy_init frag s1 of
              Inl e \<Rightarrow> Threw e s1
            | Inr s2 \<Rightarrow> Done (s2\<lparr>fragCurrent := Some (frag\<lparr>trequest := now\<rparr>)\<rparr>))
      else Done s)"

text \<open>
  The value the loop of \<open>abandonRulesCheck\<close> assigns to
  \<open>fragLevelNextLoadedDelay\<close>: the time to load the next fragment at a lower level
  \<open>l\<close>, for the duration of the fragment and the load rate.
\<close>

definition levelNextLoadedDelay :: "hls_level \<Rightarrow> jsnum \<Rightarrow> jsnum \<Rightarrow> jsnum" where
  "levelNextLoadedDelay l dur rate = dur * bitrate l / (Fin 8 * round64 0.8 * rate)"

text \<open>
  The loop of \<open>abandonRulesCheck\<close> over the lower levels. It returns the two variables
  the loop leaves behind: \<open>nextLoadLevel\<close> and \<open>fragLevelNextLoadedDelay\<close>
  (\<open>None\<close> while it is \<open>undefined\<close>).
\<close>

function lowerLevelSearch ::
  "hls_level list option \<Rightarrow> jsnum \<Rightarrow> jsnum \<Rightarrow> jsnum \<Rightarrow> int \<Rightarrow> jsnum option
     \<Rightarrow> error + (int \<times> jsnum option)" where
  "lowerLevelSearch lvls dur rate starvation nextLoadLevel prev =
     (if 0 \<le> nextLoadLevel then
        (case level_at lvls nextLoadLevel of
           Inl e \<Rightarrow> Inl e
         | Inr l \<Rightarrow>
             if levelNextLoadedDelay l dur rate < starvation
             then Inr (nextLoadLevel, Some (levelNextLoadedDelay l dur rate))
             else lowerLevelSearch lvls dur rate starvation
                    (nextLoadLevel - 1) (Some (levelNextLoadedDelay l dur rate)))
      else Inr (nextLoadLevel, prev))"
  by pat_completeness auto
termination
  by (relation "measure (\<lambda>(lvls, dur, rate, starvation, n, prev). nat (n + 1))") auto

text \<open>\<open>a < b\<close> where \<open>a\<close> may be \<open>undefined\<close>: \<open>undefined\<close> converts to \<open>NaN\<close>.\<close>

definition less_undef :: "jsnum option \<Rightarrow> jsnum \<Rightarrow> bool" where
  "less_undef a b = (case a of None \<Rightarrow> False | Some x \<Rightarrow> x < b)"

text \<open>\<open>frag.loader.abort()\<close> on the fragment.\<close>

definition loader_abort :: "frag \<Rightarrow> frag" where
  "loader_abort frag =
     (case loader frag of
        None \<Rightarrow> frag
      | Some ld \<Rightarrow> frag\<lparr>loader := Some (ld\<lparr>abort_calls := Suc (abort_calls ld)\<rparr>)\<rparr>)"

definition trigger :: "event \<Rightarrow> frag \<Rightarrow> hls \<Rightarrow> hls" where
  "trigger ev frag h = h\<lparr>triggered := triggered h @ [(ev, frag)]\<rparr>"

text \<open>
  The emergency switch down of \<open>abandonRulesCheck\<close> (the body of its innermost
  \<open>if\<close>), for the monitored fragment, the elapsed time and the level the loop left.
  The event carries the fragment as it is when the event is triggered.
\<close>

definition emergency_switch :: "frag \<Rightarrow> jsnum \<Rightarrow> int \<Rightarrow> abr \<Rightarrow> outcome" where
  "emergency_switch frag elapsed nextLoadLevel s =
     (let nextLoadLevel' = max 0 nextLoadLevel;
          s1 = s\<lparr>hls := (hls s)\<lparr>assigned_nextLoadLevel := nextLoadLevel'\<rparr>\<rparr>
      in (case bwEstimator s1 of
            None \<Rightarrow> Threw (TypeError BwEstimator) s1
          | Some est \<Rightarrow>
              let s2 = s1\<lparr>bwEstimator := Some (sample elapsed (loaded frag) est)\<rparr>;
                  s3 = s2\<lparr>fragCurrent := Some (loader_abort frag)\<rparr>;
                  s4 = clearTimer s3
              in Done (s4\<lparr>hls := trigger FRAG_LOAD_EMERGENCY_ABORTED (loader_abort frag)
                                     (hls s4)\<rparr>)))"

text \<open>
  \<open>abandonRulesCheck\<close>, the tick of the timer. \<open>bufferInfo_end v pos maxHole\<close> is
  \<open>BufferHelper.bufferInfo(v,pos,maxHole).end\<close> (the helper is not part of the
  controller), \<open>now\<close> is \<open>performance.now()\<close>.
\<close>

definition loader_gone :: "frag \<Rightarrow> bool" where
  "loader_gone frag =
     (case loader frag of
        None \<Rightarrow> True
      | Some ld \<Rightarrow> (case loader_stats ld of
                     None \<Rightarrow> False
                   | Some st \<Rightarrow> stats_aborted st = Some True))"

definition monitored :: "media \<Rightarrow> frag \<Rightarrow> bool" where
  "monitored v frag =
     (((\<not> paused v \<and> playbackRate v \<noteq> Fin 0) \<or> readyState v = 0)
      \<and> autoLevel frag \<and> level frag \<noteq> 0)"

text \<open>The locals of \<open>abandonRulesCheck\<close>, as functions of what they are computed from.\<close>

definition requestDelay :: "jsnum \<Rightarrow> frag \<Rightarrow> jsnum" where
  "requestDelay now frag = now - trequest frag"

definition loadRate :: "jsnum \<Rightarrow> frag \<Rightarrow> jsnum" where
  "loadRate now frag = Math_max (Fin 1) (loaded frag * Fin 1000 / requestDelay now frag)"

definition expectedLen :: "frag \<Rightarrow> hls_level \<Rightarrow> jsnum" where
  "expectedLen frag l = Math_max (loaded frag) (Math_round (duration frag * bitrate l / Fin 8))"

definition fragLoadedDelay :: "jsnum \<Rightarrow> frag \<Rightarrow> hls_level \<Rightarrow> jsnum" where
  "fragLoadedDelay now frag l = (expectedLen frag l - loaded frag) / loadRate now frag"

definition bufferStarvationDelay ::
  "(media option \<Rightarrow> jsnum \<Rightarrow> jsnum \<Rightarrow> jsnum) \<Rightarrow> hls \<Rightarrow> media \<Rightarrow> jsnum" where
  "bufferStarvationDelay bufferInfo_end h v =
     (let pos = currentTime v
      in (bufferInfo_end (Some v) pos (maxBufferHole (config h)) - pos) / \<bar>playbackRate v\<bar>)"

definition abandonRulesCheck ::
  "(media option \<Rightarrow> jsnum \<Rightarrow> jsnum \<Rightarrow> jsnum) \<Rightarrow> jsnum \<Rightarrow> abr \<Rightarrow> outcome" where
  "abandonRulesCheck bufferInfo_end now s =
     (case fragCurrent s of
        None \<Rightarrow> Threw (TypeError FragCurrent) s
      | Some frag \<Rightarrow>
          if loader_gone frag then Done (clearTimer s)
          else
            (case media (hls s) of
               None \<Rightarrow> Done s
             | Some v \<Rightarrow>
                 if monitored v frag then
                   if Fin 500 * duration frag / \<bar>playbackRate v\<bar> < requestDelay now frag then
                     (case level_at (levels (hls s)) (level frag) of
                        Inl e \<Rightarrow> Threw e s
                      | Inr l \<Rightarrow>
                          if bufferStarvationDelay bufferInfo_end (hls s) v
                               < Fin 2 * duration frag / \<bar>playbackRate v\<bar>
                             \<and> bufferStarvationDelay bufferInfo_end (hls s) v
                                 < fragLoadedDelay now frag l
                          then
                            (case lowerLevelSearch (levels (hls s)) (duration frag)
                                    (loadRate now frag)
                                    (bufferStarvationDelay bufferInfo_end (hls s) v)
                                    (level frag - 1) None of
                               Inl e \<Rightarrow> Threw e s
                             | Inr (nextLoadLevel, fragLevelNextLoadedDelay) \<Rightarrow>
                                 if less_undef fragLevelNextLoadedDelay (fragLoadedDelay now frag l)
                                 then emergency_switch frag (requestDelay now frag) nextLoadLevel s
                                 else Done s)
                          else Done s)
                   else Done s
                 else Done s))"

text \<open>
  \<open>onFragLoaded\<close>, with \<open>data.frag\<close> and \<open>data.stats\<close>. A throw of
  \<open>this.bwEstimator.sample\<close> comes before any assignment.
\<close>

definition onFragLoaded :: "jsnum \<Rightarrow> frag \<Rightarrow> stats \<Rightarrow> abr \<Rightarrow> outcome" where
  "onFragLoaded now frag st s =
     (if frag_type frag = ''main'' then
        (case (if stats_aborted st = None \<and> loadCounter frag = 1
               then (case bwEstimator s of
                       None \<Rightarrow> Inl (TypeError BwEstimator)
                     | Some est \<Rightarrow>
                         Inr (s\<lparr>bwEstimator :=
                                  Some (sample (now - stats_trequest st) (stats_loaded st) est)\<rparr>))
               else Inr s) of
           Inl e \<Rightarrow> Threw e s
         | Inr s1 \<Rightarrow>
             Done ((clearTimer s1)\<lparr>lastLoadedFragLevel := level frag, u_nextAutoLevel := - 1\<rparr>))
      else Done s)"

definition onError :: "error_details \<Rightarrow> abr \<Rightarrow> abr" where
  "onError d s =
     (case d of
        FRAG_LOAD_ERROR \<Rightarrow> clearTimer s
      | FRAG_LOAD_TIMEOUT \<Rightarrow> clearTimer s
      | OTHER_ERROR_DETAILS \<Rightarrow> s)"

definition get_autoLevelCapping :: "abr \<Rightarrow> int" where
  "get_autoLevelCapping s = u_autoLevelCapping s"

definition set_autoLevelCapping :: "int \<Rightarrow> abr \<Rightarrow> abr" where
  "set_autoLevelCapping newLevel s = s\<lparr>u_autoLevelCapping := newLevel\<rparr>"

definition set_nextAutoLevel :: "int \<Rightarrow> abr \<Rightarrow> abr" where
  "set_nextAutoLevel nextLevel s = s\<lparr>u_nextAutoLevel := nextLevel\<rparr>"

text \<open>The local \<open>maxAutoLevel\<close> of the getter \<open>nextAutoLevel\<close>.\<close>

definition maxAutoLevel :: "abr \<Rightarrow> int" where
  "maxAutoLevel s =
     (case levels (hls s) of
        None \<Rightarrow> u_autoLevelCapping s
      | Some ls \<Rightarrow>
          if u_autoLevelCapping s = - 1 \<and> length ls \<noteq> 0
          then int (length ls) - 1
          else u_autoLevelCapping s)"

text \<open>\<open>fetchTime\<close>, the local of both loops of the getter.\<close>

definition fetchTime :: "hls_level \<Rightarrow> jsnum \<Rightarrow> jsnum \<Rightarrow> jsnum" where
  "fetchTime l dur lastbw = bitrate l * dur / lastbw"

text \<open>
  The first loop of the getter: the highest level that can be fetched in the available
  fetch time; \<open>None\<close> when the loop ends without returning.
\<close>

function comfortableScan ::
  "hls_level list option \<Rightarrow> jsnum \<Rightarrow> jsnum \<Rightarrow> jsnum \<Rightarrow> int \<Rightarrow> error + int option" where
  "comfortableScan lvls dur lastbw aft i =
     (if 0 \<le> i then
        (case level_at lvls i of
           Inl e \<Rightarrow> Inl e
         | Inr l \<Rightarrow>
             if fetchTime l dur lastbw < aft then Inr (Some i)
             else comfortableScan lvls dur lastbw aft (i - 1))
      else Inr None)"
  by pat_completeness auto
termination
  by (relation "measure (\<lambda>(lvls, dur, lastbw, aft, i). nat (i + 1))") auto

text \<open>The second loop of the getter: the highest level that rebuilds the buffer.\<close>

definition timeRecovered :: "hls_level \<Rightarrow> jsnum \<Rightarrow> jsnum \<Rightarrow> jsnum" where
  "timeRecovered l dur lastbw = dur - fetchTime l dur lastbw"

function recoveryScan ::
  "hls_level list option \<Rightarrow> jsnum \<Rightarrow> jsnum \<Rightarrow> jsnum \<Rightarrow> int \<Rightarrow> error + int option" where
  "recoveryScan lvls dur lastbw aft i =
     (if 0 \<le> i then
        (case level_at lvls i of
           Inl e \<Rightarrow> Inl e
         | Inr l \<Rightarrow>
             if Fin 0 < Fin 0.5 * aft + timeRecovered l dur lastbw then Inr (Some i)
             else recoveryScan lvls dur lastbw aft (i - 1))
      else Inr None)"
  by pat_completeness auto
termination
  by (relation "measure (\<lambda>(lvls, dur, lastbw, aft, i). nat (i + 1))") auto

text \<open>
  The local \<open>availableFetchTime\<close> of the getter, with the locals it is computed from;
  \<open>frag\<close> is the current fragment.
\<close>

definition availableFetchTime ::
  "(media option \<Rightarrow> jsnum \<Rightarrow> jsnum \<Rightarrow> jsnum) \<Rightarrow> hls \<Rightarrow> frag \<Rightarrow> jsnum" where
  "availableFetchTime bufferInfo_end h frag =
     (let v = media h;
          pos = (case v of Some m \<Rightarrow> currentTime m | None \<Rightarrow> Fin 0);
          playbackRate = (case v of
                            Some m \<Rightarrow> if playbackRate m \<noteq> Fin 0 then \<bar>playbackRate m\<bar> else Fin 1
                          | None \<Rightarrow> Fin 1);
          bufferStarvationDelay =
            (bufferInfo_end v pos (maxBufferHole (config h)) - pos) / playbackRate;
          targetMinBuffered = Fin 2 * duration frag / playbackRate
      in bufferStarvationDelay - targetMinBuffered)"

text \<open>
  The getter \<open>nextAutoLevel\<close>. \<open>getEstimate\<close> is the estimator's method of that name.
\<close>

definition get_nextAutoLevel ::
  "(media option \<Rightarrow> jsnum \<Rightarrow> jsnum \<Rightarrow> jsnum) \<Rightarrow> (estimator \<Rightarrow> jsnum) \<Rightarrow> abr \<Rightarrow> error + int" where
  "get_nextAutoLevel bufferInfo_end getEstimate s =
     (if u_nextAutoLevel s \<noteq> - 1 then Inr (min (u_nextAutoLevel s) (maxAutoLevel s))
      else
        (case bwEstimator s of
           None \<Rightarrow> Inl (TypeError BwEstimator)
         | Some est \<Rightarrow>
             (case fragCurrent s of
                None \<Rightarrow> Inl (TypeError FragCurrent)
              | Some frag \<Rightarrow>
                  let lvls = levels (hls s);
                      lastbw = getEstimate est;
                      aft = availableFetchTime bufferInfo_end (hls s) frag
                  in (case (if Fin 0 < aft
                            then comfortableScan lvls (duration frag) lastbw aft (maxAutoLevel s)
                            else Inr None) of
                        Inl e \<Rightarrow> Inl e
                      | Inr (Some i) \<Rightarrow> Inr i
                      | Inr None \<Rightarrow>
                          (case recoveryScan lvls (duration frag) lastbw aft (maxAutoLevel s) of
                             Inl e \<Rightarrow> Inl e
                           | Inr (Some i) \<Rightarrow> Inr i
                           | Inr None \<Rightarrow> Inr 0)))))"

text \<open>The state a handler leaves behind, whether it returned or threw.\<close>

fun after :: "outcome \<Rightarrow> abr" where
  "after (Done s) = s"
| "after (Threw e s) = s"

section \<open>A session on a three-level ladder\<close>

text \<open>
  The ladder of 500, 1000 and 2000 kbit/s, an on-demand stream, a playing media element at
  position 0 and a main fragment of 6 seconds at level 2, selected automatically and loaded
  for the first time.
\<close>

definition ladder :: "hls_level list" where
  "ladder = [\<lparr>bitrate = Fin 500000, details = Some \<lparr>live = False\<rparr>\<rparr>,
             \<lparr>bitrate = Fin 1000000, details = Some \<lparr>live = False\<rparr>\<rparr>,
             \<lparr>bitrate = Fin 2000000, details = Some \<lparr>live = False\<rparr>\<rparr>]"

definition demo_config :: config where
  "demo_config =
     \<lparr>abrEwmaFastLive = Fin 5, abrEwmaSlowLive = Fin 9, abrEwmaFastVoD = Fin 4,
      abrEwmaSlowVoD = Fin 15, abrEwmaDefaultEstimate = Fin 500000, maxBufferHole = Fin 0.5\<rparr>"

definition demo_media :: media where
  "demo_media =
     \<lparr>paused = False, playbackRate = Fin 1, readyState = 4, currentTime = Fin 0,
      buffered = []\<rparr>"

definition demo_hls :: hls where
  "demo_hls =
     \<lparr>levels = Some ladder, config = demo_config, media = Some demo_media,
      assigned_nextLoadLevel = 0, triggered = []\<rparr>"

definition demo_frag :: frag where
  "demo_frag =
     \<lparr>frag_type = ''main'', level = 2, duration = Fin 6, loaded = Fin 0, trequest = Fin 0,
      autoLevel = True, loadCounter = 1,
      loader = Some \<lparr>loader_stats = None, abort_calls = 0\<rparr>\<rparr>"

text \<open>
  \<open>monitoring\<close>: the state after \<open>FRAG_LOADING\<close> of that fragment at time 0 on
  a new controller.
\<close>

definition monitoring :: abr where
  "monitoring = after (onFragLoading (Fin 0) demo_frag (constructor demo_hls))"

text \<open>
  A buffer helper that reports the buffered range to end at \<open>e\<close>, and an estimator
  that answers \<open>bw\<close>.
\<close>

definition buffer_end_is :: "jsnum \<Rightarrow> media option \<Rightarrow> jsnum \<Rightarrow> jsnum \<Rightarrow> jsnum" where
  "buffer_end_is e v pos maxHole = e"

definition estimate_is :: "jsnum \<Rightarrow> estimator \<Rightarrow> jsnum" where
  "estimate_is bw est = bw"

text \<open>
  \<open>stalling\<close>: the loader has delivered 800000 of the 1500000 bytes of the fragment.
  At the tick of time 4000, with 2 seconds left in the buffer, the load rate is 200000
  bytes per second and the rest of the fragment takes 3.5 seconds.
\<close>

definition slow_frag :: frag where
  "slow_frag = demo_frag\<lparr>loaded := Fin 800000\<rparr>"

definition stalling :: abr where
  "stalling = monitoring\<lparr>fragCurrent := Some slow_frag\<rparr>"

text \<open>The statistics of the fragment once it is loaded, with no \<open>aborted\<close> mark.\<close>

definition demo_stats :: stats where
  "demo_stats = \<lparr>stats_aborted = None, stats_trequest = Fin 0, stats_loaded = Fin 1500000\<rparr>"

text \<open>\<open>forced\<close>: the next level is forced to 5 while the fragment is loading.\<close>

definition forced :: abr where
  "forced = set_nextAutoLevel 5 monitoring"

text \<open>
  Two main fragments whose \<open>FRAG_LOADING\<close> throws on a new controller: one names
  level 7, which the ladder does not have; the other names level 2 of a ladder whose
  playlists are not loaded yet. \<open>orphaned\<close> and \<open>orphaned_pending\<close> are the states
  the throw leaves.
\<close>

definition stray_frag :: frag where
  "stray_frag = demo_frag\<lparr>level := 7\<rparr>"

definition orphaned :: abr where
  "orphaned = (constructor demo_hls)\<lparr>timer := Some 1, intervals := [1], timerSeq := 1\<rparr>"

definition pending_ladder :: "hls_level list" where
  "pending_ladder = [\<lparr>bitrate = Fin 500000, details = None\<rparr>,
                     \<lparr>bitrate = Fin 1000000, details = None\<rparr>,
                     \<lparr>bitrate = Fin 2000000, details = None\<rparr>]"

definition pending_hls :: hls where
  "pending_hls = demo_hls\<lparr>levels := Some pending_ladder\<rparr>"

definition orphaned_pending :: abr where
  "orphaned_pending =
     (constructor pending_hls)\<lparr>timer := Some 1, intervals := [1], timerSeq := 1\<rparr>"

section \<open>Properties\<close>

lemmas js_ops = plus_jsnum_def minus_jsnum_def times_jsnum_def divide_jsnum_def less_jsnum_def
  abs_jsnum_def uminus_jsnum_def

declare comfortableScan.simps [simp del] recoveryScan.simps [simp del] lowerLevelSearch.simps [simp del]

lemmas arith_eval = round64_def nearest64_def ulp_exponent_def ilog2_def compute_bitlen
  round_even_def scale2_def Let_def

subsection \<open>Rounding is monotone\<close>

lemma scale2_powi: "scale2 x n = x * 2 powi n"
  by (simp add: scale2_def power_int_def field_simps)

lemma round_even_bounds: "\<lfloor>z\<rfloor> \<le> round_even z" "round_even z \<le> \<lfloor>z\<rfloor> + 1"
  by (simp_all add: round_even_def Let_def)

lemma round_even_of_int: "round_even (of_int n) = n"
  by (simp add: round_even_def)

lemma round_even_mono:
  assumes "z1 \<le> z2"
  shows "round_even z1 \<le> round_even z2"
proof (cases "\<lfloor>z1\<rfloor> = \<lfloor>z2\<rfloor>")
  case True
  with assms show ?thesis by (auto simp: round_even_def Let_def)
next
  case False
  with assms have "\<lfloor>z1\<rfloor> < \<lfloor>z2\<rfloor>" by (simp add: floor_mono order.strict_iff_order)
  with round_even_bounds [of z1] round_even_bounds [of z2] show ?thesis by linarith
qed

lemma round_even_minus: "round_even (- z) = - round_even z"
proof (cases "z \<in> \<int>")
  case True
  then obtain n where "z = of_int n" by (auto elim: Ints_cases)
  then have "- z = of_int (- n)" by simp
  with \<open>z = of_int n\<close> show ?thesis by (simp only: round_even_of_int)
next
  case False
  then have ne: "z \<noteq> of_int \<lfloor>z\<rfloor>" by (metis Ints_of_int)
  then have fl: "\<lfloor>- z\<rfloor> = - \<lfloor>z\<rfloor> - 1"
    by (simp add: floor_minus ceiling_altdef)
  show ?thesis
    unfolding round_even_def Let_def fl
    by (auto simp: algebra_simps)
qed

lemma ilog2_bounds:
  assumes "0 < x"
  shows "2 powi ilog2 x \<le> x" and "x < 2 powi (ilog2 x + 1)"
proof -
  have "2 powi ilog2 x \<le> x \<and> x < 2 powi (ilog2 x + 1)"
  proof (cases "1 \<le> x")
    case True
    let ?n = "\<lfloor>x\<rfloor>" and ?b = "bitlen \<lfloor>x\<rfloor>"
    from True have n: "0 < ?n" by simp
    from bitlen_bounds [OF n] have lo: "2 ^ nat (?b - 1) \<le> ?n" and hi: "?n < 2 ^ nat ?b"
      by simp_all
    from n have b: "1 \<le> ?b" by (simp add: bitlen_alt_def)
    have "(2::real) ^ nat (?b - 1) \<le> of_int ?n"
      using lo by (metis of_int_le_iff of_int_numeral of_int_power)
    also have "\<dots> \<le> x" by simp
    finally have l: "2 powi (?b - 1) \<le> x" using b by (simp add: power_int_def)
    from hi have "?n + 1 \<le> 2 ^ nat ?b" by simp
    then have "of_int (?n + 1) \<le> (2::real) ^ nat ?b"
      by (metis of_int_le_iff of_int_numeral of_int_power)
    moreover have "x < of_int (?n + 1)" by linarith
    ultimately have "x < 2 ^ nat ?b" by linarith
    then have "x < 2 powi ?b" using b by (simp add: power_int_def)
    with l True show ?thesis by (simp add: ilog2_def)
  next
    case False
    let ?y = "1 / x"
    let ?m = "\<lceil>?y\<rceil> - 1" and ?k = "bitlen (\<lceil>1 / x\<rceil> - 1)"
    from False assms have y: "1 < ?y" by simp
    then have m: "0 < ?m" by linarith
    from bitlen_bounds [OF m] have lo: "2 ^ nat (?k - 1) \<le> ?m" and hi: "?m < 2 ^ nat ?k"
      by simp_all
    from m have k: "1 \<le> ?k" by (simp add: bitlen_alt_def)
    have "(2::real) ^ nat (?k - 1) \<le> of_int ?m"
      using lo by (metis of_int_le_iff of_int_numeral of_int_power)
    also have "\<dots> < ?y" by linarith
    finally have "2 ^ nat (?k - 1) < 1 / x" .
    with assms have "x < 1 / 2 ^ nat (?k - 1)" by (simp add: field_simps)
    also have "\<dots> = 2 powi (- ?k + 1)"
      using k by (simp add: power_int_def nat_diff_distrib field_simps)
    finally have u: "x < 2 powi (- ?k + 1)" .
    from hi have "?m + 1 \<le> 2 ^ nat ?k" by simp
    then have "of_int (?m + 1) \<le> (2::real) ^ nat ?k"
      by (metis of_int_le_iff of_int_numeral of_int_power)
    moreover have "?y \<le> of_int (?m + 1)" by simp
    ultimately have "1 / x \<le> 2 ^ nat ?k" by linarith
    with assms have "1 / 2 ^ nat ?k \<le> x" by (simp add: field_simps)
    moreover have "1 / 2 ^ nat ?k = (2::real) powi (- ?k)"
      using k by (simp add: power_int_def field_simps)
    ultimately have "2 powi (- ?k) \<le> x" by simp
    with u False show ?thesis by (simp add: ilog2_def)
  qed
  then show "2 powi ilog2 x \<le> x" and "x < 2 powi (ilog2 x + 1)" by simp_all
qed

lemma ilog2_mono:
  assumes "0 < x" and "x \<le> y"
  shows "ilog2 x \<le> ilog2 y"
proof -
  have "2 powi ilog2 x \<le> x" using assms(1) by (rule ilog2_bounds)
  also have "x \<le> y" by fact
  also have "y < 2 powi (ilog2 y + 1)" using assms by (intro ilog2_bounds) simp
  finally have "(2::real) powi ilog2 x < 2 powi (ilog2 y + 1)" .
  then have "ilog2 x < ilog2 y + 1"
    by (metis linorder_not_less one_le_numeral power_int_increasing)
  then show ?thesis by simp
qed


lemma nearest64_pos:
  "0 < x \<Longrightarrow> nearest64 x = of_int (round_even (x * 2 powi (- ulp_exponent x))) * 2 powi ulp_exponent x"
  by (simp add: nearest64_def scale2_powi)

lemma ulp_exponent_pos: "0 < x \<Longrightarrow> ulp_exponent x = max (ilog2 x - 52) (- 1074)"
  by (simp add: ulp_exponent_def)

lemma nearest64_pos_mono:
  assumes "0 < x" and "x \<le> y"
  shows "nearest64 x \<le> nearest64 y"
proof -
  let ?qx = "ulp_exponent x" and ?qy = "ulp_exponent y"
  let ?ex = "ilog2 x" and ?ey = "ilog2 y"
  let ?zx = "x * 2 powi (- ?qx)" and ?zy = "y * 2 powi (- ?qy)"
  from assms have y: "0 < y" by simp
  have nx: "nearest64 x = of_int (round_even ?zx) * 2 powi ?qx" using assms(1) by (rule nearest64_pos)
  have ny: "nearest64 y = of_int (round_even ?zy) * 2 powi ?qy" using y by (rule nearest64_pos)
  have qx: "?qx = max (?ex - 52) (- 1074)" using assms(1) by (rule ulp_exponent_pos)
  have qy: "?qy = max (?ey - 52) (- 1074)" using y by (rule ulp_exponent_pos)
  have e: "?ex \<le> ?ey" using assms by (rule ilog2_mono)
  with qx qy have q: "?qx \<le> ?qy" by simp
  show ?thesis
  proof (cases "?qx = ?qy")
    case True
    have "?zx \<le> ?zy" using assms(2) True by (simp add: mult_right_mono)
    then have "round_even ?zx \<le> round_even ?zy" by (rule round_even_mono)
    then have "(of_int (round_even ?zx) :: real) \<le> of_int (round_even ?zy)" by simp
    then show ?thesis unfolding nx ny True by (simp add: mult_right_mono)
  next
    case False
    with q have lt: "?qx < ?qy" by simp
    with qx qy have qy': "?qy = ?ey - 52" and elt: "?ex < ?ey" by linarith+
    \<comment> \<open>the larger argument rounds to at least its power of two\<close>
    have "2 powi ?ey \<le> y" using y by (rule ilog2_bounds)
    then have "2 powi ?ey * 2 powi (- ?qy) \<le> ?zy" by (simp add: mult_right_mono)
    moreover have "(2::real) powi ?ey * 2 powi (- ?qy) = 2 powi 52"
      by (simp add: qy' flip: power_int_add)
    ultimately have "of_int (2 ^ 52) \<le> ?zy" by simp
    then have "round_even (of_int (2 ^ 52)) \<le> round_even ?zy" by (rule round_even_mono)
    then have "2 ^ 52 \<le> round_even ?zy" by (simp only: round_even_of_int)
    then have "(2::real) ^ 52 \<le> of_int (round_even ?zy)"
      by (metis of_int_le_iff of_int_numeral of_int_power)
    then have "2 ^ 52 * 2 powi ?qy \<le> nearest64 y" unfolding ny by (simp add: mult_right_mono)
    moreover have "(2::real) ^ 52 * 2 powi ?qy = 2 powi ?ey"
    proof -
      have "(2::real) powi (52 + ?qy) = 2 powi 52 * 2 powi ?qy" by (intro power_int_add) simp
      then have "(2::real) ^ 52 * 2 powi ?qy = 2 powi (52 + ?qy)" by simp
      then show ?thesis by (simp add: qy')
    qed
    ultimately have low: "2 powi ?ey \<le> nearest64 y" by simp
    \<comment> \<open>the smaller argument rounds to at most that power of two\<close>
    have xu: "x < 2 powi (?ex + 1)" using assms(1) by (rule ilog2_bounds)
    have "nearest64 x \<le> 2 powi ?ey"
    proof (cases "0 \<le> ?ex + 1 - ?qx")
      case True
      let ?n = "nat (?ex + 1 - ?qx)"
      have "?zx \<le> 2 powi (?ex + 1) * 2 powi (- ?qx)" using xu by (simp add: mult_right_mono)
      also have "\<dots> = 2 powi (?ex + 1 - ?qx)" by (simp flip: power_int_add)
      also have "\<dots> = of_int (2 ^ ?n)" using True by (simp add: power_int_def)
      finally have "round_even ?zx \<le> round_even (of_int (2 ^ ?n))" by (rule round_even_mono)
      then have "round_even ?zx \<le> 2 ^ ?n" by (simp only: round_even_of_int)
      then have "(of_int (round_even ?zx) :: real) \<le> 2 ^ ?n"
        by (metis of_int_le_iff of_int_numeral of_int_power)
      then have "nearest64 x \<le> 2 ^ ?n * 2 powi ?qx" unfolding nx by (simp add: mult_right_mono)
      also have "(2::real) ^ ?n = 2 powi (?ex + 1 - ?qx)" using True by (simp add: power_int_def)
      also have "2 powi (?ex + 1 - ?qx) * 2 powi ?qx = (2::real) powi (?ex + 1)"
        by (simp flip: power_int_add)
      also have "\<dots> \<le> 2 powi ?ey" using elt by (intro power_int_increasing) simp_all
      finally show ?thesis .
    next
      case False
      have "?zx \<le> 2 powi (?ex + 1) * 2 powi (- ?qx)" using xu by (simp add: mult_right_mono)
      also have "\<dots> = 2 powi (?ex + 1 - ?qx)" by (simp flip: power_int_add)
      also have "\<dots> \<le> 2 powi 0" using False by (intro power_int_increasing) simp_all
      finally have "?zx \<le> of_int 1" by simp
      then have "round_even ?zx \<le> round_even (of_int 1)" by (rule round_even_mono)
      then have "round_even ?zx \<le> 1" by (simp only: round_even_of_int)
      then have "(of_int (round_even ?zx) :: real) \<le> 1" by simp
      then have "nearest64 x \<le> 1 * 2 powi ?qx" unfolding nx by (intro mult_right_mono) simp_all
      also have "\<dots> \<le> 2 powi ?ey" using lt qy' by (simp add: power_int_increasing)
      finally show ?thesis .
    qed
    with low show ?thesis by simp
  qed
qed

lemma nearest64_nonneg:
  assumes "0 \<le> x"
  shows "0 \<le> nearest64 x"
proof (cases "x = 0")
  case True
  then show ?thesis by (simp add: nearest64_def)
next
  case False
  with assms have x: "0 < x" by simp
  then have "of_int 0 \<le> x * 2 powi (- ulp_exponent x)" by simp
  then have "round_even (of_int 0) \<le> round_even (x * 2 powi (- ulp_exponent x))"
    by (rule round_even_mono)
  then have "0 \<le> round_even (x * 2 powi (- ulp_exponent x))" by (simp only: round_even_of_int)
  then show ?thesis using x by (simp add: nearest64_pos)
qed

lemma nearest64_minus: "nearest64 (- x) = - nearest64 x"
proof -
  have "ulp_exponent (- x) = ulp_exponent x" by (simp add: ulp_exponent_def)
  moreover have "- x * 2 powi n = - (x * 2 powi n)" for n by simp
  ultimately show ?thesis
    by (simp add: nearest64_def scale2_powi round_even_minus)
qed

lemma nearest64_mono:
  assumes "x \<le> y"
  shows "nearest64 x \<le> nearest64 y"
proof (cases "0 < x")
  case True
  then show ?thesis using assms by (rule nearest64_pos_mono)
next
  case False
  note xneg = this
  show ?thesis
  proof (cases "0 \<le> y")
    case True
    from xneg have "0 \<le> nearest64 (- x)" by (intro nearest64_nonneg) simp
    then have "nearest64 x \<le> 0" by (simp add: nearest64_minus)
    with nearest64_nonneg [OF True] show ?thesis by simp
  next
    case False
    with assms have "0 < - y" "- y \<le> - x" by simp_all
    then have "nearest64 (- y) \<le> nearest64 (- x)" by (rule nearest64_pos_mono)
    then show ?thesis by (simp add: nearest64_minus)
  qed
qed

subsection \<open>The order of the numbers\<close>

lemma round64_mono:
  assumes "x \<le> y"
  shows "round64 x \<le> round64 y"
proof -
  have "nearest64 x \<le> nearest64 y" using assms by (rule nearest64_mono)
  then show ?thesis
    by (auto simp: round64_def Let_def less_eq_jsnum_def)
qed

lemma round64_not_NaN: "round64 x \<noteq> NaN"
  by (simp add: round64_def Let_def)

lemma js_le_not_NaN: "a \<le> b \<Longrightarrow> a \<noteq> NaN \<and> b \<noteq> (NaN::jsnum)"
  by (cases a; cases b) (simp_all add: less_eq_jsnum_def)

lemma js_le_Fin: "Fin x \<le> Fin y \<longleftrightarrow> x \<le> y"
  by (auto simp: less_eq_jsnum_def)

lemma round64_zero: "round64 0 = Fin 0"
  by (simp add: round64_def nearest64_def)

lemma js_less_le_trans: "a < b \<Longrightarrow> b \<le> c \<Longrightarrow> a < (c::jsnum)"
  by (cases a; cases b; cases c) (auto simp: js_ops less_eq_jsnum_def)

lemma js_le_less_trans: "a \<le> b \<Longrightarrow> b < c \<Longrightarrow> a < (c::jsnum)"
  by (cases a; cases b; cases c) (auto simp: js_ops less_eq_jsnum_def)

lemma js_neg_antimono: "a \<le> b \<Longrightarrow> - b \<le> - (a::jsnum)"
  by (cases a; cases b) (auto simp: js_ops less_eq_jsnum_def)

lemma js_add_Fin_mono: "b \<le> c \<Longrightarrow> Fin d + b \<le> Fin d + c"
proof (cases b; cases c)
  fix x y assume h: "b \<le> c" "b = Fin x" "c = Fin y"
  then have "x \<le> y" by (simp add: js_le_Fin)
  then have "round64 (d + x) \<le> round64 (d + y)" by (intro round64_mono) simp
  with h show "Fin d + b \<le> Fin d + c" by (simp add: js_ops)
qed (simp_all add: js_ops less_eq_jsnum_def round64_def Let_def)

lemma js_add_less_mono: "b \<le> c \<Longrightarrow> x < a + b \<Longrightarrow> x < a + (c::jsnum)"
proof (cases a)
  case (Fin d)
  assume "b \<le> c" and "x < a + b"
  with Fin js_add_Fin_mono [of b c d] show ?thesis by (auto intro: js_less_le_trans)
next
  case PInf
  assume "b \<le> c" and "x < a + b"
  with PInf show ?thesis by (cases b; cases c; cases x) (simp_all add: js_ops less_eq_jsnum_def)
next
  case NInf
  assume "b \<le> c" and "x < a + b"
  with NInf show ?thesis by (cases b; cases c; cases x) (simp_all add: js_ops less_eq_jsnum_def)
next
  case NaN
  assume "b \<le> c" and "x < a + b"
  with NaN show ?thesis by (simp add: js_ops)
qed

lemma fetchTime_antimono:
  assumes "bitrate l = Fin b" and "0 \<le> b" and "0 \<le> d" and "0 < e1" and "e1 \<le> e2"
  shows "fetchTime l (Fin d) (Fin e2) \<le> fetchTime l (Fin d) (Fin e1)"
proof -
  have "round64 0 \<le> round64 (b * d)" using assms(2,3) by (intro round64_mono) simp
  then have "Fin 0 \<le> round64 (b * d)" by (simp only: round64_zero)
  then consider p where "round64 (b * d) = Fin p" "0 \<le> p" | "round64 (b * d) = PInf"
    by (cases "round64 (b * d)") (auto simp: less_eq_jsnum_def js_ops)
  then show ?thesis
  proof cases
    case 1
    have "p / e2 \<le> p / e1" using 1(2) assms(4,5) by (intro divide_left_mono) simp_all
    then have "round64 (p / e2) \<le> round64 (p / e1)" by (rule round64_mono)
    with 1 assms show ?thesis by (simp add: fetchTime_def js_ops)
  next
    case 2
    with assms show ?thesis by (simp add: fetchTime_def js_ops less_eq_jsnum_def)
  qed
qed

lemma comfortable_test_mono:
  "ft2 \<le> ft1 \<Longrightarrow> ft1 < aft \<Longrightarrow> ft2 < (aft::jsnum)"
  by (rule js_le_less_trans)

lemma recovery_test_mono:
  assumes "ft2 \<le> ft1" and "Fin 0 < h + (Fin d - ft1)"
  shows "Fin 0 < h + (Fin d - ft2)"
proof -
  have "- ft1 \<le> - ft2" using assms(1) by (rule js_neg_antimono)
  then have "Fin d + (- ft1) \<le> Fin d + (- ft2)" by (rule js_add_Fin_mono)
  moreover have "Fin d - ft = Fin d + (- ft)" for ft by (simp add: js_ops)
  ultimately have "Fin d - ft1 \<le> Fin d - ft2" by simp
  then show ?thesis using assms(2) by (rule js_add_less_mono)
qed

text \<open>
  The rounding at familiar values: the binary64 values of 0.1 and 0.8, the sum
  \<open>0.1 + 0.2\<close> (0.30000000000000004), the quotient \<open>1 / 3\<close>, and two ties
  above the 53rd power of 2, each going to the even significand.
\<close>

lemma round64_known_values:
  "round64 0.1 = Fin (3602879701896397 / 2 ^ 55)"
  "round64 0.8 = Fin (3602879701896397 / 2 ^ 52)"
  "round64 0.1 + round64 0.2 = Fin (1351079888211149 / 2 ^ 52)"
  "Fin 1 / Fin 3 = Fin (6004799503160661 / 2 ^ 54)"
  "Fin (2 ^ 53) + Fin 1 = Fin (2 ^ 53)"
  "Fin (2 ^ 53 + 2) + Fin 1 = Fin (2 ^ 53 + 4)"
  by (simp_all add: js_ops arith_eval)

subsection \<open>Array lookups\<close>

lemma level_at_in_range:
  "0 \<le> i \<Longrightarrow> i < int (length ls) \<Longrightarrow> level_at (Some ls) i = Inr (ls ! nat i)"
  by (simp add: level_at_def at_index_def)

subsection \<open>The two loops of the getter\<close>

lemma comfortableScan_found:
  assumes "i < int (length ls)" and "0 \<le> k" and "k \<le> i"
    and "fetchTime (ls ! nat k) dur bw < aft"
    and "\<forall>j. k < j \<and> j \<le> i \<longrightarrow> \<not> fetchTime (ls ! nat j) dur bw < aft"
  shows "comfortableScan (Some ls) dur bw aft i = Inr (Some k)"
  using assms
proof (induction "Some ls" dur bw aft i rule: comfortableScan.induct)
  case (1 dur lastbw aft i)
  show ?case
  proof (cases "k = i")
    case True
    with 1 show ?thesis
      by (subst comfortableScan.simps) (simp add: level_at_in_range)
  next
    case False
    with 1 have lt: "k < i" by simp
    with 1 have nf: "\<not> fetchTime (ls ! nat i) dur lastbw < aft" by simp
    have "comfortableScan (Some ls) dur lastbw aft (i - 1) = Inr (Some k)"
      using 1 lt nf by (intro 1(1)) (auto simp: level_at_in_range)
    with 1 lt nf show ?thesis
      by (subst comfortableScan.simps) (simp add: level_at_in_range)
  qed
qed

lemma comfortableScan_none:
  assumes "i < int (length ls)"
    and "\<forall>j. 0 \<le> j \<and> j \<le> i \<longrightarrow> \<not> fetchTime (ls ! nat j) dur bw < aft"
  shows "comfortableScan (Some ls) dur bw aft i = Inr None"
  using assms
proof (induction "Some ls" dur bw aft i rule: comfortableScan.induct)
  case (1 dur lastbw aft i)
  show ?case
  proof (cases "0 \<le> i")
    case True
    with 1 have nf: "\<not> fetchTime (ls ! nat i) dur lastbw < aft" by simp
    have "comfortableScan (Some ls) dur lastbw aft (i - 1) = Inr None"
      using 1 True nf by (intro 1(1)) (auto simp: level_at_in_range)
    with 1 True nf show ?thesis
      by (subst comfortableScan.simps) (simp add: level_at_in_range)
  next
    case False
    then show ?thesis by (subst comfortableScan.simps) simp
  qed
qed

lemma comfortableScan_range:
  assumes "hi < int (length ls)"
  shows "\<exists>r. comfortableScan (Some ls) dur bw aft hi = Inr r
             \<and> (\<forall>a. r = Some a \<longrightarrow> 0 \<le> a \<and> a \<le> hi)"
  using assms
proof (induction "Some ls" dur bw aft hi rule: comfortableScan.induct)
  case (1 dur lastbw aft i)
  show ?case
  proof (cases "0 \<le> i")
    case True
    note nonneg = this
    show ?thesis
    proof (cases "fetchTime (ls ! nat i) dur lastbw < aft")
      case True
      with 1 nonneg show ?thesis
        by (subst comfortableScan.simps) (simp add: level_at_in_range)
    next
      case False
      have "\<exists>r. comfortableScan (Some ls) dur lastbw aft (i - 1) = Inr r
             \<and> (\<forall>a. r = Some a \<longrightarrow> 0 \<le> a \<and> a \<le> i - 1)"
        using 1 nonneg False by (intro 1(1)) (auto simp: level_at_in_range)
      then obtain r where r: "comfortableScan (Some ls) dur lastbw aft (i - 1) = Inr r"
        and b: "\<forall>a. r = Some a \<longrightarrow> 0 \<le> a \<and> a \<le> i - 1" by blast
      from b have "\<forall>a. r = Some a \<longrightarrow> 0 \<le> a \<and> a \<le> i" by auto
      with 1 nonneg False r show ?thesis
        by (subst comfortableScan.simps) (simp add: level_at_in_range)
    qed
  next
    case False
    then show ?thesis by (subst comfortableScan.simps) simp
  qed
qed

lemma comfortableScan_mono:
  assumes "hi < int (length ls)"
    and "\<forall>j. 0 \<le> j \<and> j \<le> hi \<longrightarrow> fetchTime (ls ! nat j) dur bw1 < aft
            \<longrightarrow> fetchTime (ls ! nat j) dur bw2 < aft"
    and "comfortableScan (Some ls) dur bw1 aft hi = Inr (Some a)"
  shows "\<exists>b. comfortableScan (Some ls) dur bw2 aft hi = Inr (Some b) \<and> a \<le> b"
  using assms
proof (induction "Some ls" dur bw1 aft hi rule: comfortableScan.induct)
  case (1 dur lastbw aft i)
  from 1(4) have nonneg: "0 \<le> i"
    by (subst (asm) comfortableScan.simps) (simp split: if_splits)
  from comfortableScan_range [OF 1(2), where dur = dur and bw = lastbw and aft = aft] 1(4) have ai: "a \<le> i" by auto
  show ?case
  proof (cases "fetchTime (ls ! nat i) dur bw2 < aft")
    case True
    with 1 nonneg ai show ?thesis
      by (subst comfortableScan.simps) (simp add: level_at_in_range)
  next
    case False
    with 1(3) nonneg have nf: "\<not> fetchTime (ls ! nat i) dur lastbw < aft" by auto
    with 1(2,4) nonneg have prev: "comfortableScan (Some ls) dur lastbw aft (i - 1) = Inr (Some a)"
      by (subst (asm) comfortableScan.simps) (simp add: level_at_in_range)
    have "\<exists>b. comfortableScan (Some ls) dur bw2 aft (i - 1) = Inr (Some b) \<and> a \<le> b"
      using 1(2,3) nonneg nf prev by (intro 1(1)) (auto simp: level_at_in_range)
    with 1(2) nonneg False show ?thesis
      by (subst comfortableScan.simps) (simp add: level_at_in_range)
  qed
qed

lemma recoveryScan_found:
  assumes "i < int (length ls)" and "0 \<le> k" and "k \<le> i"
    and "Fin 0 < Fin 0.5 * aft + timeRecovered (ls ! nat k) dur bw"
    and "\<forall>j. k < j \<and> j \<le> i \<longrightarrow> \<not> Fin 0 < Fin 0.5 * aft + timeRecovered (ls ! nat j) dur bw"
  shows "recoveryScan (Some ls) dur bw aft i = Inr (Some k)"
  using assms
proof (induction "Some ls" dur bw aft i rule: recoveryScan.induct)
  case (1 dur lastbw aft i)
  show ?case
  proof (cases "k = i")
    case True
    with 1 show ?thesis
      by (subst recoveryScan.simps) (simp add: level_at_in_range)
  next
    case False
    with 1 have lt: "k < i" by simp
    with 1 have nf: "\<not> Fin 0 < Fin 0.5 * aft + timeRecovered (ls ! nat i) dur lastbw" by simp
    have "recoveryScan (Some ls) dur lastbw aft (i - 1) = Inr (Some k)"
      using 1 lt nf by (intro 1(1)) (auto simp: level_at_in_range)
    with 1 lt nf show ?thesis
      by (subst recoveryScan.simps) (simp add: level_at_in_range)
  qed
qed

lemma recoveryScan_none:
  assumes "i < int (length ls)"
    and "\<forall>j. 0 \<le> j \<and> j \<le> i \<longrightarrow> \<not> Fin 0 < Fin 0.5 * aft + timeRecovered (ls ! nat j) dur bw"
  shows "recoveryScan (Some ls) dur bw aft i = Inr None"
  using assms
proof (induction "Some ls" dur bw aft i rule: recoveryScan.induct)
  case (1 dur lastbw aft i)
  show ?case
  proof (cases "0 \<le> i")
    case True
    with 1 have nf: "\<not> Fin 0 < Fin 0.5 * aft + timeRecovered (ls ! nat i) dur lastbw" by simp
    have "recoveryScan (Some ls) dur lastbw aft (i - 1) = Inr None"
      using 1 True nf by (intro 1(1)) (auto simp: level_at_in_range)
    with 1 True nf show ?thesis
      by (subst recoveryScan.simps) (simp add: level_at_in_range)
  next
    case False
    then show ?thesis by (subst recoveryScan.simps) simp
  qed
qed

lemma recoveryScan_range:
  assumes "hi < int (length ls)"
  shows "\<exists>r. recoveryScan (Some ls) dur bw aft hi = Inr r
             \<and> (\<forall>a. r = Some a \<longrightarrow> 0 \<le> a \<and> a \<le> hi)"
  using assms
proof (induction "Some ls" dur bw aft hi rule: recoveryScan.induct)
  case (1 dur lastbw aft i)
  show ?case
  proof (cases "0 \<le> i")
    case True
    note nonneg = this
    show ?thesis
    proof (cases "Fin 0 < Fin 0.5 * aft + timeRecovered (ls ! nat i) dur lastbw")
      case True
      with 1 nonneg show ?thesis
        by (subst recoveryScan.simps) (simp add: level_at_in_range)
    next
      case False
      have "\<exists>r. recoveryScan (Some ls) dur lastbw aft (i - 1) = Inr r
             \<and> (\<forall>a. r = Some a \<longrightarrow> 0 \<le> a \<and> a \<le> i - 1)"
        using 1 nonneg False by (intro 1(1)) (auto simp: level_at_in_range)
      then obtain r where r: "recoveryScan (Some ls) dur lastbw aft (i - 1) = Inr r"
        and b: "\<forall>a. r = Some a \<longrightarrow> 0 \<le> a \<and> a \<le> i - 1" by blast
      from b have "\<forall>a. r = Some a \<longrightarrow> 0 \<le> a \<and> a \<le> i" by auto
      with 1 nonneg False r show ?thesis
        by (subst recoveryScan.simps) (simp add: level_at_in_range)
    qed
  next
    case False
    then show ?thesis by (subst recoveryScan.simps) simp
  qed
qed

lemma recoveryScan_mono:
  assumes "hi < int (length ls)"
    and "\<forall>j. 0 \<le> j \<and> j \<le> hi
            \<longrightarrow> Fin 0 < Fin 0.5 * aft + timeRecovered (ls ! nat j) dur bw1
            \<longrightarrow> Fin 0 < Fin 0.5 * aft + timeRecovered (ls ! nat j) dur bw2"
    and "recoveryScan (Some ls) dur bw1 aft hi = Inr (Some a)"
  shows "\<exists>b. recoveryScan (Some ls) dur bw2 aft hi = Inr (Some b) \<and> a \<le> b"
  using assms
proof (induction "Some ls" dur bw1 aft hi rule: recoveryScan.induct)
  case (1 dur lastbw aft i)
  from 1(4) have nonneg: "0 \<le> i"
    by (subst (asm) recoveryScan.simps) (simp split: if_splits)
  from recoveryScan_range [OF 1(2), where dur = dur and bw = lastbw and aft = aft] 1(4) have ai: "a \<le> i" by auto
  show ?case
  proof (cases "Fin 0 < Fin 0.5 * aft + timeRecovered (ls ! nat i) dur bw2")
    case True
    with 1 nonneg ai show ?thesis
      by (subst recoveryScan.simps) (simp add: level_at_in_range)
  next
    case False
    with 1(3) nonneg have nf: "\<not> Fin 0 < Fin 0.5 * aft + timeRecovered (ls ! nat i) dur lastbw"
      by auto
    with 1(2,4) nonneg have prev: "recoveryScan (Some ls) dur lastbw aft (i - 1) = Inr (Some a)"
      by (subst (asm) recoveryScan.simps) (simp add: level_at_in_range)
    have "\<exists>b. recoveryScan (Some ls) dur bw2 aft (i - 1) = Inr (Some b) \<and> a \<le> b"
      using 1(2,3) nonneg nf prev by (intro 1(1)) (auto simp: level_at_in_range)
    with 1(2) nonneg False show ?thesis
      by (subst recoveryScan.simps) (simp add: level_at_in_range)
  qed
qed

subsection \<open>The loop of the abandonment check\<close>

lemma lowerLevelSearch_found:
  assumes "hi < int (length ls)" and "0 \<le> k" and "k \<le> hi"
    and "levelNextLoadedDelay (ls ! nat k) dur rate < bsd"
    and "\<forall>j. k < j \<and> j \<le> hi \<longrightarrow> \<not> levelNextLoadedDelay (ls ! nat j) dur rate < bsd"
  shows "lowerLevelSearch (Some ls) dur rate bsd hi prev
           = Inr (k, Some (levelNextLoadedDelay (ls ! nat k) dur rate))"
  using assms
proof (induction "Some ls" dur rate bsd hi prev rule: lowerLevelSearch.induct)
  case (1 dur rate bsd hi prev)
  show ?case
  proof (cases "k = hi")
    case True
    with 1 show ?thesis
      by (subst lowerLevelSearch.simps) (simp add: level_at_in_range)
  next
    case False
    with 1 have lt: "k < hi" by simp
    with 1 have nf: "\<not> levelNextLoadedDelay (ls ! nat hi) dur rate < bsd" by simp
    have "lowerLevelSearch (Some ls) dur rate bsd (hi - 1)
            (Some (levelNextLoadedDelay (ls ! nat hi) dur rate))
          = Inr (k, Some (levelNextLoadedDelay (ls ! nat k) dur rate))"
      using 1 lt nf by (intro 1(1)) (auto simp: level_at_in_range)
    with 1 lt nf show ?thesis
      by (subst lowerLevelSearch.simps) (simp add: level_at_in_range)
  qed
qed

lemma lowerLevelSearch_none:
  assumes "hi < int (length ls)" and "- 1 \<le> hi"
    and "\<forall>j. 0 \<le> j \<and> j \<le> hi \<longrightarrow> \<not> levelNextLoadedDelay (ls ! nat j) dur rate < bsd"
  shows "lowerLevelSearch (Some ls) dur rate bsd hi prev
           = Inr (- 1, if 0 \<le> hi then Some (levelNextLoadedDelay (ls ! nat 0) dur rate) else prev)"
  using assms
proof (induction "Some ls" dur rate bsd hi prev rule: lowerLevelSearch.induct)
  case (1 dur rate bsd hi prev)
  show ?case
  proof (cases "0 \<le> hi")
    case True
    with 1 have nf: "\<not> levelNextLoadedDelay (ls ! nat hi) dur rate < bsd" by simp
    have "lowerLevelSearch (Some ls) dur rate bsd (hi - 1)
            (Some (levelNextLoadedDelay (ls ! nat hi) dur rate))
          = Inr (- 1, if 0 \<le> hi - 1 then Some (levelNextLoadedDelay (ls ! nat 0) dur rate)
                      else Some (levelNextLoadedDelay (ls ! nat hi) dur rate))"
      using 1 True nf by (intro 1(1)) (auto simp: level_at_in_range)
    moreover have "\<not> 0 \<le> hi - 1 \<Longrightarrow> hi = 0" using True by simp
    ultimately show ?thesis using 1 True nf
      by (subst lowerLevelSearch.simps) (auto simp: level_at_in_range)
  next
    case False
    with 1 have "hi = - 1" by simp
    then show ?thesis by (subst lowerLevelSearch.simps) simp
  qed
qed

subsection \<open>The timer and the handlers\<close>

lemma clearTimer_fields:
  "bwEstimator (clearTimer s) = bwEstimator s"
  "fragCurrent (clearTimer s) = fragCurrent s"
  "hls (clearTimer s) = hls s"
  "u_nextAutoLevel (clearTimer s) = u_nextAutoLevel s"
  "u_autoLevelCapping (clearTimer s) = u_autoLevelCapping s"
  "lastLoadedFragLevel (clearTimer s) = lastLoadedFragLevel s"
  by (simp_all add: clearTimer_def clearInterval_def split: option.splits)

lemma clearTimer_disarmed: "disarmed s (clearTimer s)"
  by (auto simp: disarmed_def clearTimer_def clearInterval_def truthy_timer_def
      split: option.splits)

lemma disarmed_truthy: "disarmed s s' \<Longrightarrow> \<not> truthy_timer (timer s')"
  by (simp add: disarmed_def)

lemma disarmed_from:
  assumes "timer s1 = timer s" and "intervals s1 = intervals s"
  shows "disarmed s (clearTimer s1)"
  using clearTimer_disarmed [of s1] unfolding disarmed_def assms .

lemma disarmed_update:
  assumes "disarmed s s1" and "timer s' = timer s1" and "intervals s' = intervals s1"
  shows "disarmed s s'"
  using assms by (simp add: disarmed_def)

lemma emergency_switch_Done:
  assumes "emergency_switch frag elapsed n s = Done s'"
  shows "disarmed s s'" and "fragCurrent s' = Some (loader_abort frag)"
proof -
  from assms obtain est where est: "bwEstimator s = Some est"
    by (auto simp: emergency_switch_def Let_def split: option.splits)
  let ?s3 = "s\<lparr>hls := (hls s)\<lparr>assigned_nextLoadLevel := max 0 n\<rparr>,
                bwEstimator := Some (sample elapsed (loaded frag) est),
                fragCurrent := Some (loader_abort frag)\<rparr>"
  from assms est have s': "s' = (clearTimer ?s3)\<lparr>hls := trigger FRAG_LOAD_EMERGENCY_ABORTED
      (loader_abort frag) (hls (clearTimer ?s3))\<rparr>"
    by (simp add: emergency_switch_def Let_def)
  have "disarmed s (clearTimer ?s3)" by (rule disarmed_from) simp_all
  then show "disarmed s s'" unfolding s' by (rule disarmed_update) simp_all
  show "fragCurrent s' = Some (loader_abort frag)" unfolding s' by (simp add: clearTimer_fields)
qed

lemma abandonRulesCheck_event:
  assumes "abandonRulesCheck B t s = Done s'" and "triggered (hls s') \<noteq> triggered (hls s)"
  shows "\<exists>frag elapsed n. fragCurrent s = Some frag \<and> emergency_switch frag elapsed n s = Done s'"
  using assms
  by (auto simp: abandonRulesCheck_def clearTimer_fields
      split: option.splits if_splits sum.splits prod.splits)

lemma abandonRulesCheck_fragCurrent:
  "fragCurrent (after (abandonRulesCheck B t s)) = fragCurrent s
   \<or> (\<exists>f. fragCurrent s = Some f
           \<and> fragCurrent (after (abandonRulesCheck B t s)) = Some (loader_abort f))"
  by (auto simp: abandonRulesCheck_def clearTimer_fields emergency_switch_def Let_def
      split: option.splits if_splits sum.splits prod.splits)

lemma onFragLoaded_main_Done:
  assumes "frag_type frag = ''main''" and "onFragLoaded now frag st s = Done s'"
  shows "disarmed s s'" and "fragCurrent s' = fragCurrent s"
    and "u_nextAutoLevel s' = - 1" and "lastLoadedFragLevel s' = level frag"
proof -
  have "\<exists>s1. timer s1 = timer s \<and> intervals s1 = intervals s \<and> fragCurrent s1 = fragCurrent s
      \<and> s' = (clearTimer s1)\<lparr>lastLoadedFragLevel := level frag, u_nextAutoLevel := - 1\<rparr>"
  proof (cases "stats_aborted st = None \<and> loadCounter frag = 1")
    case True
    with assms obtain est where "bwEstimator s = Some est"
      and "s' = (clearTimer (s\<lparr>bwEstimator :=
                   Some (sample (now - stats_trequest st) (stats_loaded st) est)\<rparr>))
                 \<lparr>lastLoadedFragLevel := level frag, u_nextAutoLevel := - 1\<rparr>"
      by (auto simp: onFragLoaded_def split: option.splits)
    then show ?thesis
      by (intro exI [of _ "s\<lparr>bwEstimator :=
                   Some (sample (now - stats_trequest st) (stats_loaded st) est)\<rparr>"]) simp
  next
    case False
    with assms
    have "s' = (clearTimer s)\<lparr>lastLoadedFragLevel := level frag, u_nextAutoLevel := - 1\<rparr>"
      by (auto simp: onFragLoaded_def)
    then show ?thesis by (intro exI [of _ s]) simp
  qed
  then obtain s1 where s1: "timer s1 = timer s" "intervals s1 = intervals s"
      "fragCurrent s1 = fragCurrent s"
    and s': "s' = (clearTimer s1)\<lparr>lastLoadedFragLevel := level frag, u_nextAutoLevel := - 1\<rparr>"
    by blast
  have "disarmed s (clearTimer s1)" using s1(1,2) by (rule disarmed_from)
  then show "disarmed s s'" unfolding s' by (rule disarmed_update) simp_all
  show "fragCurrent s' = fragCurrent s" unfolding s' by (simp add: clearTimer_fields s1)
  show "u_nextAutoLevel s' = - 1" and "lastLoadedFragLevel s' = level frag"
    unfolding s' by simp_all
qed

lemma onFragLoaded_fragCurrent:
  "fragCurrent (after (onFragLoaded now frag st s)) = fragCurrent s"
  by (auto simp: onFragLoaded_def clearTimer_fields split: option.splits)

lemma onError_fragCurrent: "fragCurrent (onError d s) = fragCurrent s"
  by (cases d) (simp_all add: onError_def clearTimer_fields)

lemma onError_disarmed:
  "d = FRAG_LOAD_ERROR \<or> d = FRAG_LOAD_TIMEOUT \<Longrightarrow> disarmed s (onError d s)"
  by (auto simp: onError_def clearTimer_disarmed)

lemma abandonRulesCheck_quiet:
  assumes "triggered (hls (after (abandonRulesCheck B t s))) = triggered (hls s)"
  shows "fragCurrent (after (abandonRulesCheck B t s)) = fragCurrent s"
  using assms
  by (auto simp: abandonRulesCheck_def clearTimer_fields emergency_switch_def Let_def
      trigger_def split: option.splits if_splits sum.splits prod.splits)

lemma lazy_init_fields:
  assumes "lazy_init frag s = Inr s2"
  shows "timer s2 = timer s" and "intervals s2 = intervals s"
    and "fragCurrent s2 = fragCurrent s" and "u_nextAutoLevel s2 = u_nextAutoLevel s"
  using assms
  by (auto simp: lazy_init_def Let_def split: option.splits sum.splits)

lemma onFragLoading_Threw_fragCurrent:
  assumes "onFragLoading now frag s = Threw e s1"
  shows "fragCurrent s1 = fragCurrent s"
  using assms
  by (auto simp: onFragLoading_def setInterval_def Let_def split: if_splits sum.splits)

lemma onFragLoading_main_Done_fragCurrent:
  assumes "frag_type frag = ''main''" and "onFragLoading now frag s = Done s1"
  shows "fragCurrent s1 = Some (frag\<lparr>trequest := now\<rparr>)"
  using assms
  by (auto simp: onFragLoading_def Let_def split: sum.splits)

subsection \<open>The session\<close>

lemma monitoring_eq:
  "monitoring =
     \<lparr>lastLoadedFragLevel = 0, u_autoLevelCapping = - 1, u_nextAutoLevel = - 1, hls = demo_hls,
      timer = Some 1,
      bwEstimator = Some \<lparr>ewma_slow = Fin 15, ewma_fast = Fin 4, default_estimate = Fin 500000,
                           samples = []\<rparr>,
      fragCurrent = Some demo_frag, intervals = [1], timerSeq = 1\<rparr>"
  by (simp add: monitoring_def onFragLoading_def constructor_def demo_frag_def demo_hls_def
      truthy_timer_def setInterval_def lazy_init_def level_at_def at_index_def ladder_def
      new_EwmaBandWidthEstimator_def demo_config_def)

lemma monitoring_Done: "onFragLoading (Fin 0) demo_frag (constructor demo_hls) = Done monitoring"
  by (simp add: monitoring_eq onFragLoading_def constructor_def demo_frag_def demo_hls_def
      truthy_timer_def setInterval_def lazy_init_def level_at_def at_index_def ladder_def
      new_EwmaBandWidthEstimator_def demo_config_def)

lemma monitoring_fields:
  "u_nextAutoLevel monitoring = - 1"
  "u_autoLevelCapping monitoring = - 1"
  "hls monitoring = demo_hls"
  "timer monitoring = Some 1"
  "bwEstimator monitoring = Some \<lparr>ewma_slow = Fin 15, ewma_fast = Fin 4,
                                    default_estimate = Fin 500000, samples = []\<rparr>"
  "fragCurrent monitoring = Some demo_frag"
  "intervals monitoring = [1]"
  by (simp_all add: monitoring_eq)

lemma demo_fields:
  "levels demo_hls = Some ladder"
  "media demo_hls = Some demo_media"
  "duration demo_frag = Fin 6"
  "level demo_frag = 2"
  "length ladder = 3"
  by (simp_all add: demo_hls_def demo_frag_def ladder_def)

lemma demo_frag_fields:
  "frag_type demo_frag = ''main''" "loadCounter demo_frag = 1" "level demo_frag = 2"
  "loader demo_frag = Some \<lparr>loader_stats = None, abort_calls = 0\<rparr>"
  by (simp_all add: demo_frag_def)

lemma demo_media_fields:
  "paused demo_media = False" "playbackRate demo_media = Fin 1" "readyState demo_media = 4"
  "currentTime demo_media = Fin 0"
  by (simp_all add: demo_media_def)

lemma demo_stats_fields:
  "stats_aborted demo_stats = None" "stats_trequest demo_stats = Fin 0"
  "stats_loaded demo_stats = Fin 1500000"
  by (simp_all add: demo_stats_def)

lemma monitoring_aft:
  "availableFetchTime (buffer_end_is (Fin 17)) demo_hls demo_frag = Fin 5"
  "availableFetchTime (buffer_end_is (Fin 9)) demo_hls demo_frag = Fin (- 3)"
  "availableFetchTime (buffer_end_is (Fin 13)) demo_hls demo_frag = Fin 1"
  by (simp_all add: availableFetchTime_def buffer_end_is_def demo_hls_def demo_media_def
      demo_frag_def js_ops arith_eval)

lemma monitoring_maxAutoLevel: "maxAutoLevel monitoring = 2"
  by (simp add: maxAutoLevel_def monitoring_fields demo_fields)

lemma monitoring_loaded_Done:
  "onFragLoaded (Fin 3000) demo_frag demo_stats monitoring
     = Done (after (onFragLoaded (Fin 3000) demo_frag demo_stats monitoring))"
  by (simp add: onFragLoaded_def demo_frag_fields demo_stats_fields monitoring_fields)

lemma stalling_fields:
  "fragCurrent stalling = Some slow_frag"
  "hls stalling = demo_hls"
  "bwEstimator stalling = Some \<lparr>ewma_slow = Fin 15, ewma_fast = Fin 4,
                                  default_estimate = Fin 500000, samples = []\<rparr>"
  "timer stalling = Some 1"
  "intervals stalling = [1]"
  by (simp_all add: stalling_def monitoring_fields)

lemma slow_frag_fields:
  "level slow_frag = 2" "duration slow_frag = Fin 6" "loaded slow_frag = Fin 800000"
  "trequest slow_frag = Fin 0" "autoLevel slow_frag" "frag_type slow_frag = ''main''"
  "loader slow_frag = Some \<lparr>loader_stats = None, abort_calls = 0\<rparr>"
  by (simp_all add: slow_frag_def demo_frag_def)

lemma stalling_locals:
  "requestDelay (Fin 4000) slow_frag = Fin 4000"
  "loadRate (Fin 4000) slow_frag = Fin 200000"
  "fragLoadedDelay (Fin 4000) slow_frag (ladder ! 2) = Fin 3.5"
  "bufferStarvationDelay (buffer_end_is (Fin 2)) demo_hls demo_media = Fin 2"
  "level_at (Some ladder) 2 = Inr (ladder ! 2)"
  by (simp_all add: requestDelay_def loadRate_def fragLoadedDelay_def expectedLen_def
      bufferStarvationDelay_def buffer_end_is_def slow_frag_fields demo_media_fields Math_max_def
      level_at_def at_index_def ladder_def js_ops arith_eval)

lemma stalling_search:
  "lowerLevelSearch (Some ladder) (Fin 6) (Fin 200000) (Fin 2) 1 None
     = Inr (- 1, Some (Fin (75 / 32)))"
  by (simp add: lowerLevelSearch.simps level_at_def at_index_def ladder_def
      levelNextLoadedDelay_def js_ops arith_eval)

lemma stalling_tick_fragCurrent:
  "fragCurrent (after (abandonRulesCheck (buffer_end_is (Fin 2)) (Fin 4000) stalling))
     = Some (loader_abort slow_frag)"
  by (simp add: abandonRulesCheck_def stalling_fields slow_frag_fields demo_fields
      demo_media_fields loader_gone_def monitored_def stalling_locals stalling_search
      less_undef_def emergency_switch_def clearTimer_fields js_ops arith_eval)

lemma forced_fields:
  "u_nextAutoLevel forced = 5" "maxAutoLevel forced = 2"
  "bwEstimator forced = bwEstimator monitoring"
  by (simp_all add: forced_def set_nextAutoLevel_def maxAutoLevel_def monitoring_fields
      demo_fields)

lemma forced_loaded_Done:
  "onFragLoaded (Fin 3000) demo_frag demo_stats forced
     = Done (after (onFragLoaded (Fin 3000) demo_frag demo_stats forced))"
  by (simp add: onFragLoaded_def demo_frag_fields demo_stats_fields forced_fields
      monitoring_fields)

subsection \<open>Comparisons that the rounding decides\<close>

text \<open>
  With the estimate 3100000 the fetch time of level 2 is \<open>2000000 * 6 / 3100000\<close>,
  which rounds up to 3.870967741935484. When the available fetch time is that same number
  the strict comparison of the first loop fails at level 2 and the getter returns 1; the
  exact quotient would have passed.
\<close>

lemma comfortable_tie:
  "fetchTime (ladder ! 2) (Fin 6) (Fin 3100000)
     = availableFetchTime (buffer_end_is (round64 15.870967741935484)) demo_hls demo_frag"
  "Fin (2000000 * 6 / 3100000)
     < availableFetchTime (buffer_end_is (round64 15.870967741935484)) demo_hls demo_frag"
  "get_nextAutoLevel (buffer_end_is (round64 15.870967741935484)) (estimate_is (Fin 3100000))
     monitoring = Inr 1"
  by (simp_all add: get_nextAutoLevel_def monitoring_fields demo_fields monitoring_maxAutoLevel
      estimate_is_def comfortableScan.simps level_at_def at_index_def ladder_def fetchTime_def
      availableFetchTime_def buffer_end_is_def demo_hls_def demo_media_def demo_frag_def
      js_ops arith_eval)

text \<open>
  The same in the second loop: with the buffer ending at 7.741935483870968 the sum
  \<open>0.5 * availableFetchTime + timeRecovered\<close> of level 2 is exactly 0, and the getter
  returns 1.
\<close>

lemma recovery_tie:
  "Fin 0.5 * availableFetchTime (buffer_end_is (round64 7.741935483870968)) demo_hls demo_frag
     + timeRecovered (ladder ! 2) (Fin 6) (Fin 3100000) = Fin 0"
  "get_nextAutoLevel (buffer_end_is (round64 7.741935483870968)) (estimate_is (Fin 3100000))
     monitoring = Inr 1"
  by (simp_all add: get_nextAutoLevel_def monitoring_fields demo_fields monitoring_maxAutoLevel
      estimate_is_def comfortableScan.simps recoveryScan.simps level_at_def at_index_def
      ladder_def fetchTime_def timeRecovered_def
      availableFetchTime_def buffer_end_is_def demo_hls_def demo_media_def demo_frag_def
      js_ops arith_eval)

text \<open>
  Two estimates one apart, with the buffer ending at 13.666663888893519: under 1800003 the
  fetch time of level 0 rounds to the available fetch time, the first loop finds no level and
  the second returns 2; under 1800004 the first loop returns 0.
\<close>

lemma neighbouring_estimates:
  "fetchTime (ladder ! 0) (Fin 6) (Fin 1800003)
     = availableFetchTime (buffer_end_is (round64 13.666663888893519)) demo_hls demo_frag"
  "get_nextAutoLevel (buffer_end_is (round64 13.666663888893519)) (estimate_is (Fin 1800003))
     monitoring = Inr 2"
  "get_nextAutoLevel (buffer_end_is (round64 13.666663888893519)) (estimate_is (Fin 1800004))
     monitoring = Inr 0"
  by (simp_all add: get_nextAutoLevel_def monitoring_fields demo_fields monitoring_maxAutoLevel
      estimate_is_def comfortableScan.simps recoveryScan.simps level_at_def at_index_def
      ladder_def fetchTime_def timeRecovered_def
      availableFetchTime_def buffer_end_is_def demo_hls_def demo_media_def demo_frag_def
      js_ops arith_eval)

text \<open>
  A tick 5500 ms after the request of a fragment of 5 seconds, with 800000 bytes loaded and
  3.09375 seconds in the buffer: \<open>fragLoadedDelay\<close> rounds to 3.0937500000000004,
  above the buffer, and the check aborts.
\<close>

lemma abort_by_one_ulp:
  "fragLoadedDelay (Fin 5500) (demo_frag\<lparr>duration := Fin 5, loaded := Fin 800000\<rparr>) (ladder ! 2)
     = Fin (6966505673588737 / 2251799813685248)"
  "bufferStarvationDelay (buffer_end_is (Fin 3.09375)) demo_hls demo_media
     = Fin (6966505673588736 / 2251799813685248)"
  "bwEstimator (after (abandonRulesCheck (buffer_end_is (Fin 3.09375)) (Fin 5500)
      (monitoring\<lparr>fragCurrent := Some (demo_frag\<lparr>duration := Fin 5, loaded := Fin 800000\<rparr>)\<rparr>)))
     = Some \<lparr>ewma_slow = Fin 15, ewma_fast = Fin 4, default_estimate = Fin 500000,
              samples = [(Fin 5500, Fin 800000)]\<rparr>"
  by (simp_all add: abandonRulesCheck_def monitoring_fields demo_fields demo_frag_def
      demo_media_def demo_hls_def demo_config_def loader_gone_def monitored_def
      requestDelay_def loadRate_def fragLoadedDelay_def expectedLen_def
      bufferStarvationDelay_def buffer_end_is_def Math_max_def
      lowerLevelSearch.simps levelNextLoadedDelay_def
      level_at_def at_index_def ladder_def
      less_undef_def emergency_switch_def clearTimer_fields sample_def js_ops arith_eval)

text \<open>
  A tick at 3500 ms with 275654 bytes loaded and the buffer ending at 11.903509472019271:
  the delay of level 1 rounds to the buffer left, the loop goes on to level 0 and level 0 is
  assigned.
\<close>

lemma search_passes_level_one:
  "levelNextLoadedDelay (ladder ! 1) (Fin 6) (loadRate (Fin 3500) (demo_frag\<lparr>loaded := Fin 275654\<rparr>))
     = bufferStarvationDelay (buffer_end_is (round64 11.903509472019271)) demo_hls demo_media"
  "lowerLevelSearch (Some ladder) (Fin 6) (loadRate (Fin 3500) (demo_frag\<lparr>loaded := Fin 275654\<rparr>))
     (bufferStarvationDelay (buffer_end_is (round64 11.903509472019271)) demo_hls demo_media) 1 None
     = Inr (0, Some (levelNextLoadedDelay (ladder ! 0) (Fin 6)
                       (loadRate (Fin 3500) (demo_frag\<lparr>loaded := Fin 275654\<rparr>))))"
  "triggered (hls (after (abandonRulesCheck (buffer_end_is (round64 11.903509472019271)) (Fin 3500)
      (monitoring\<lparr>hls := demo_hls\<lparr>assigned_nextLoadLevel := 2\<rparr>,
                   fragCurrent := Some (demo_frag\<lparr>loaded := Fin 275654\<rparr>)\<rparr>))))
     = [(FRAG_LOAD_EMERGENCY_ABORTED, loader_abort (demo_frag\<lparr>loaded := Fin 275654\<rparr>))]"
  "assigned_nextLoadLevel (hls (after (abandonRulesCheck
      (buffer_end_is (round64 11.903509472019271)) (Fin 3500)
      (monitoring\<lparr>hls := demo_hls\<lparr>assigned_nextLoadLevel := 2\<rparr>,
                   fragCurrent := Some (demo_frag\<lparr>loaded := Fin 275654\<rparr>)\<rparr>)))) = 0"
  by (simp_all add: abandonRulesCheck_def monitoring_fields demo_fields demo_frag_def
      demo_media_def demo_hls_def demo_config_def loader_gone_def monitored_def
      requestDelay_def loadRate_def fragLoadedDelay_def expectedLen_def
      bufferStarvationDelay_def buffer_end_is_def Math_max_def
      lowerLevelSearch.simps levelNextLoadedDelay_def
      level_at_def at_index_def ladder_def trigger_def loader_abort_def
      less_undef_def emergency_switch_def clearTimer_fields sample_def js_ops arith_eval)


subsection \<open>Selection of the next level\<close>

text \<open>
  C1. Comfortable case of the getter \<open>nextAutoLevel\<close>: with no forced level, the
  estimator and the current fragment defined and \<open>maxAutoLevel\<close> inside the ladder,
  whenever \<open>availableFetchTime > 0\<close> and \<open>k\<close> is the highest index from
  \<open>maxAutoLevel\<close> down to 0 whose \<open>fetchTime = bitrate * duration / estimate\<close>
  is less than \<open>availableFetchTime\<close>, the getter returns \<open>k\<close>. On the ladder of
  500, 1000 and 2000 kbit/s with a duration of 6 s, an estimate of 1500 kbit/s, no cap and
  an available fetch time of 5 s it returns 1.
\<close>

theorem nextAutoLevel_comfortable:
  "(\<forall>s est frag ls k.
      u_nextAutoLevel s = - 1 \<and> bwEstimator s = Some est \<and> fragCurrent s = Some frag
      \<and> levels (hls s) = Some ls \<and> maxAutoLevel s < int (length ls)
      \<and> Fin 0 < availableFetchTime B (hls s) frag
      \<and> 0 \<le> k \<and> k \<le> maxAutoLevel s
      \<and> fetchTime (ls ! nat k) (duration frag) (E est) < availableFetchTime B (hls s) frag
      \<and> (\<forall>j. k < j \<and> j \<le> maxAutoLevel s
             \<longrightarrow> \<not> fetchTime (ls ! nat j) (duration frag) (E est) < availableFetchTime B (hls s) frag)
      \<longrightarrow> get_nextAutoLevel B E s = Inr k)
   \<and> get_nextAutoLevel (buffer_end_is (Fin 17)) (estimate_is (Fin 1500000)) monitoring = Inr 1"
proof (intro conjI allI impI)
  fix s est frag ls k
  assume h: "u_nextAutoLevel s = - 1 \<and> bwEstimator s = Some est \<and> fragCurrent s = Some frag
      \<and> levels (hls s) = Some ls \<and> maxAutoLevel s < int (length ls)
      \<and> Fin 0 < availableFetchTime B (hls s) frag
      \<and> 0 \<le> k \<and> k \<le> maxAutoLevel s
      \<and> fetchTime (ls ! nat k) (duration frag) (E est) < availableFetchTime B (hls s) frag
      \<and> (\<forall>j. k < j \<and> j \<le> maxAutoLevel s
             \<longrightarrow> \<not> fetchTime (ls ! nat j) (duration frag) (E est) < availableFetchTime B (hls s) frag)"
  then have "comfortableScan (Some ls) (duration frag) (E est) (availableFetchTime B (hls s) frag)
               (maxAutoLevel s) = Inr (Some k)"
    by (intro comfortableScan_found) simp_all
  with h show "get_nextAutoLevel B E s = Inr k"
    by (simp add: get_nextAutoLevel_def)
next
  have "comfortableScan (Some ladder) (Fin 6) (Fin 1500000) (Fin 5) 2 = Inr (Some 1)"
    by (simp add: comfortableScan.simps level_at_def at_index_def ladder_def fetchTime_def js_ops arith_eval)
  then show "get_nextAutoLevel (buffer_end_is (Fin 17)) (estimate_is (Fin 1500000)) monitoring = Inr 1"
    by (simp add: get_nextAutoLevel_def monitoring_fields demo_fields monitoring_aft
        monitoring_maxAutoLevel estimate_is_def js_ops arith_eval)
qed

theorem nextAutoLevel_comfortable_witness:
  "u_nextAutoLevel monitoring = - 1
   \<and> fragCurrent monitoring = Some demo_frag
   \<and> levels (hls monitoring) = Some ladder
   \<and> maxAutoLevel monitoring < int (length ladder)
   \<and> Fin 0 < availableFetchTime (buffer_end_is (Fin 17)) (hls monitoring) demo_frag
   \<and> fetchTime (ladder ! nat 1) (duration demo_frag) (Fin 1500000)
        < availableFetchTime (buffer_end_is (Fin 17)) (hls monitoring) demo_frag
   \<and> \<not> fetchTime (ladder ! nat 2) (duration demo_frag) (Fin 1500000)
        < availableFetchTime (buffer_end_is (Fin 17)) (hls monitoring) demo_frag
   \<and> get_nextAutoLevel (buffer_end_is (Fin 17)) (estimate_is (Fin 1500000)) monitoring = Inr 1"
proof -
  let ?B = "buffer_end_is (Fin 17)" and ?E = "estimate_is (Fin 1500000)"
  let ?est = "\<lparr>ewma_slow = Fin 15, ewma_fast = Fin 4, default_estimate = Fin 500000,
                samples = []\<rparr>"
  have aft: "availableFetchTime ?B (hls monitoring) demo_frag = Fin 5"
    by (simp add: monitoring_fields monitoring_aft)
  have f1: "fetchTime (ladder ! nat 1) (duration demo_frag) (?E ?est) = Fin 4"
    by (simp add: fetchTime_def ladder_def demo_fields estimate_is_def js_ops arith_eval)
  have f2: "fetchTime (ladder ! nat 2) (duration demo_frag) (?E ?est) = Fin 8"
    by (simp add: fetchTime_def ladder_def demo_fields estimate_is_def js_ops arith_eval)
  have top: "\<forall>j. 1 < j \<and> j \<le> maxAutoLevel monitoring
        \<longrightarrow> \<not> fetchTime (ladder ! nat j) (duration demo_frag) (?E ?est)
              < availableFetchTime ?B (hls monitoring) demo_frag"
  proof (intro allI impI)
    fix j :: int
    assume "1 < j \<and> j \<le> maxAutoLevel monitoring"
    then have "j = 2" by (simp add: monitoring_maxAutoLevel)
    then show "\<not> fetchTime (ladder ! nat j) (duration demo_frag) (?E ?est)
              < availableFetchTime ?B (hls monitoring) demo_frag"
      using f2 by (simp add: aft js_ops arith_eval)
  qed
  have hyps: "u_nextAutoLevel monitoring = - 1 \<and> bwEstimator monitoring = Some ?est
      \<and> fragCurrent monitoring = Some demo_frag
      \<and> levels (hls monitoring) = Some ladder \<and> maxAutoLevel monitoring < int (length ladder)
      \<and> Fin 0 < availableFetchTime ?B (hls monitoring) demo_frag
      \<and> (0::int) \<le> 1 \<and> 1 \<le> maxAutoLevel monitoring
      \<and> fetchTime (ladder ! nat 1) (duration demo_frag) (?E ?est)
          < availableFetchTime ?B (hls monitoring) demo_frag"
    using f1 aft by (simp add: monitoring_fields demo_fields monitoring_maxAutoLevel js_ops arith_eval)
  from nextAutoLevel_comfortable [of ?B ?E, THEN conjunct1, rule_format,
      of monitoring ?est demo_frag ladder 1] hyps top
  have "get_nextAutoLevel ?B ?E monitoring = Inr 1" by blast
  with hyps f1 f2 aft show ?thesis
    by (simp add: estimate_is_def js_ops arith_eval)
qed

text \<open>
  C2. Recovery and fallback of the getter \<open>nextAutoLevel\<close>: when
  \<open>availableFetchTime > 0\<close> is false or no level passes the comfortable test, the
  getter returns the highest index \<open>k\<close> from \<open>maxAutoLevel\<close> down to 0 with
  \<open>0.5 * availableFetchTime + (duration - fetchTime) > 0\<close>, and 0 (a value, not an
  error) when no index passes. On the ladder with an estimate of 100 kbit/s and an available
  fetch time of -3 s it returns 0.
\<close>

theorem nextAutoLevel_recovery:
  "(\<forall>s est frag ls.
      u_nextAutoLevel s = - 1 \<and> bwEstimator s = Some est \<and> fragCurrent s = Some frag
      \<and> levels (hls s) = Some ls \<and> maxAutoLevel s < int (length ls)
      \<and> (\<not> Fin 0 < availableFetchTime B (hls s) frag
         \<or> (\<forall>j. 0 \<le> j \<and> j \<le> maxAutoLevel s
                \<longrightarrow> \<not> fetchTime (ls ! nat j) (duration frag) (E est)
                      < availableFetchTime B (hls s) frag))
      \<longrightarrow> (\<forall>k. 0 \<le> k \<and> k \<le> maxAutoLevel s
                \<and> Fin 0 < Fin 0.5 * availableFetchTime B (hls s) frag
                            + timeRecovered (ls ! nat k) (duration frag) (E est)
                \<and> (\<forall>j. k < j \<and> j \<le> maxAutoLevel s
                       \<longrightarrow> \<not> Fin 0 < Fin 0.5 * availableFetchTime B (hls s) frag
                                       + timeRecovered (ls ! nat j) (duration frag) (E est))
                \<longrightarrow> get_nextAutoLevel B E s = Inr k)
          \<and> ((\<forall>j. 0 \<le> j \<and> j \<le> maxAutoLevel s
                   \<longrightarrow> \<not> Fin 0 < Fin 0.5 * availableFetchTime B (hls s) frag
                                   + timeRecovered (ls ! nat j) (duration frag) (E est))
               \<longrightarrow> get_nextAutoLevel B E s = Inr 0))
   \<and> get_nextAutoLevel (buffer_end_is (Fin 9)) (estimate_is (Fin 100000)) monitoring = Inr 0"
proof (intro conjI allI impI)
  fix s :: abr and est frag ls k
  let ?aft = "availableFetchTime B (hls s) frag"
  assume h: "u_nextAutoLevel s = - 1 \<and> bwEstimator s = Some est \<and> fragCurrent s = Some frag
      \<and> levels (hls s) = Some ls \<and> maxAutoLevel s < int (length ls)
      \<and> (\<not> Fin 0 < ?aft
         \<or> (\<forall>j. 0 \<le> j \<and> j \<le> maxAutoLevel s
                \<longrightarrow> \<not> fetchTime (ls ! nat j) (duration frag) (E est) < ?aft))"
  assume r: "0 \<le> k \<and> k \<le> maxAutoLevel s
                \<and> Fin 0 < Fin 0.5 * ?aft + timeRecovered (ls ! nat k) (duration frag) (E est)
                \<and> (\<forall>j. k < j \<and> j \<le> maxAutoLevel s
                       \<longrightarrow> \<not> Fin 0 < Fin 0.5 * ?aft
                                       + timeRecovered (ls ! nat j) (duration frag) (E est))"
  have c: "(if Fin 0 < ?aft
            then comfortableScan (Some ls) (duration frag) (E est) ?aft (maxAutoLevel s)
            else Inr None) = Inr None"
    using h by (auto intro: comfortableScan_none)
  have "recoveryScan (Some ls) (duration frag) (E est) ?aft (maxAutoLevel s) = Inr (Some k)"
    using h r by (intro recoveryScan_found) simp_all
  with h c show "get_nextAutoLevel B E s = Inr k"
    by (simp add: get_nextAutoLevel_def)
next
  fix s :: abr and est frag ls
  let ?aft = "availableFetchTime B (hls s) frag"
  assume h: "u_nextAutoLevel s = - 1 \<and> bwEstimator s = Some est \<and> fragCurrent s = Some frag
      \<and> levels (hls s) = Some ls \<and> maxAutoLevel s < int (length ls)
      \<and> (\<not> Fin 0 < ?aft
         \<or> (\<forall>j. 0 \<le> j \<and> j \<le> maxAutoLevel s
                \<longrightarrow> \<not> fetchTime (ls ! nat j) (duration frag) (E est) < ?aft))"
  assume r: "\<forall>j. 0 \<le> j \<and> j \<le> maxAutoLevel s
                   \<longrightarrow> \<not> Fin 0 < Fin 0.5 * ?aft
                                   + timeRecovered (ls ! nat j) (duration frag) (E est)"
  have c: "(if Fin 0 < ?aft
            then comfortableScan (Some ls) (duration frag) (E est) ?aft (maxAutoLevel s)
            else Inr None) = Inr None"
    using h by (auto intro: comfortableScan_none)
  have "recoveryScan (Some ls) (duration frag) (E est) ?aft (maxAutoLevel s) = Inr None"
    using h r by (intro recoveryScan_none) simp_all
  with h c show "get_nextAutoLevel B E s = Inr 0"
    by (simp add: get_nextAutoLevel_def)
next
  have "recoveryScan (Some ladder) (Fin 6) (Fin 100000) (Fin (- 3)) 2 = Inr None"
    by (simp add: recoveryScan.simps level_at_def at_index_def ladder_def fetchTime_def
        timeRecovered_def js_ops arith_eval)
  then show "get_nextAutoLevel (buffer_end_is (Fin 9)) (estimate_is (Fin 100000)) monitoring = Inr 0"
    by (simp add: get_nextAutoLevel_def monitoring_fields demo_fields monitoring_aft
        monitoring_maxAutoLevel estimate_is_def js_ops arith_eval)
qed

theorem nextAutoLevel_recovery_witness:
  "u_nextAutoLevel monitoring = - 1
   \<and> fragCurrent monitoring = Some demo_frag
   \<and> levels (hls monitoring) = Some ladder
   \<and> maxAutoLevel monitoring < int (length ladder)
   \<and> availableFetchTime (buffer_end_is (Fin 9)) (hls monitoring) demo_frag = Fin (- 3)
   \<and> \<not> Fin 0 < availableFetchTime (buffer_end_is (Fin 9)) (hls monitoring) demo_frag
   \<and> timeRecovered (ladder ! nat 0) (duration demo_frag) (Fin 100000) = Fin (- 24)
   \<and> get_nextAutoLevel (buffer_end_is (Fin 9)) (estimate_is (Fin 100000)) monitoring = Inr 0"
proof -
  let ?B = "buffer_end_is (Fin 9)" and ?E = "estimate_is (Fin 100000)"
  let ?est = "\<lparr>ewma_slow = Fin 15, ewma_fast = Fin 4, default_estimate = Fin 500000,
                samples = []\<rparr>"
  have aft: "availableFetchTime ?B (hls monitoring) demo_frag = Fin (- 3)"
    by (simp add: monitoring_fields monitoring_aft)
  have t0: "timeRecovered (ladder ! nat 0) (duration demo_frag) (?E ?est) = Fin (- 24)"
    by (simp add: timeRecovered_def fetchTime_def ladder_def demo_fields estimate_is_def js_ops arith_eval)
  have t1: "timeRecovered (ladder ! nat 1) (duration demo_frag) (?E ?est) = Fin (- 54)"
    by (simp add: timeRecovered_def fetchTime_def ladder_def demo_fields estimate_is_def js_ops arith_eval)
  have t2: "timeRecovered (ladder ! nat 2) (duration demo_frag) (?E ?est) = Fin (- 114)"
    by (simp add: timeRecovered_def fetchTime_def ladder_def demo_fields estimate_is_def js_ops arith_eval)
  have none: "\<forall>j. 0 \<le> j \<and> j \<le> maxAutoLevel monitoring
        \<longrightarrow> \<not> Fin 0 < Fin 0.5 * availableFetchTime ?B (hls monitoring) demo_frag
                        + timeRecovered (ladder ! nat j) (duration demo_frag) (?E ?est)"
  proof (intro allI impI)
    fix j :: int
    assume "0 \<le> j \<and> j \<le> maxAutoLevel monitoring"
    then have "j = 0 \<or> j = 1 \<or> j = 2" by (simp add: monitoring_maxAutoLevel) linarith
    then show "\<not> Fin 0 < Fin 0.5 * availableFetchTime ?B (hls monitoring) demo_frag
                        + timeRecovered (ladder ! nat j) (duration demo_frag) (?E ?est)"
      using t0 t1 t2 by (auto simp: aft js_ops arith_eval)
  qed
  have hyps: "u_nextAutoLevel monitoring = - 1 \<and> bwEstimator monitoring = Some ?est
      \<and> fragCurrent monitoring = Some demo_frag
      \<and> levels (hls monitoring) = Some ladder \<and> maxAutoLevel monitoring < int (length ladder)
      \<and> \<not> Fin 0 < availableFetchTime ?B (hls monitoring) demo_frag"
    using aft by (simp add: monitoring_fields demo_fields monitoring_maxAutoLevel js_ops arith_eval)
  from nextAutoLevel_recovery [of ?B ?E, THEN conjunct1, rule_format,
      of monitoring ?est demo_frag ladder, THEN conjunct2] hyps none
  have "get_nextAutoLevel ?B ?E monitoring = Inr 0" by blast
  with hyps t0 aft show ?thesis
    by (simp add: estimate_is_def js_ops arith_eval)
qed

subsection \<open>The abandonment check\<close>

text \<open>
  C3. The abandonment check cancels the request in flight, feeds the estimator or triggers
  an event only when all of these hold: the fragment was selected automatically and its
  level is not 0; the media element is playing (not paused, rate not 0) or has
  \<open>readyState\<close> 0; the time since the request exceeds
  \<open>500 * duration / |rate|\<close> milliseconds; \<open>bufferStarvationDelay\<close> is
  less than \<open>2 * duration / |rate|\<close>; and \<open>fragLoadedDelay\<close> is greater
  than \<open>bufferStarvationDelay\<close>. When one of them fails, the estimator, the
  monitored fragment and the events triggered are as before.
\<close>

theorem abandonRulesCheck_cancel_conditions:
  "bwEstimator (after (abandonRulesCheck B now s)) \<noteq> bwEstimator s
   \<or> fragCurrent (after (abandonRulesCheck B now s)) \<noteq> fragCurrent s
   \<or> triggered (hls (after (abandonRulesCheck B now s))) \<noteq> triggered (hls s)
   \<longrightarrow> (\<exists>frag v l.
         fragCurrent s = Some frag \<and> media (hls s) = Some v
         \<and> level_at (levels (hls s)) (level frag) = Inr l
         \<and> autoLevel frag \<and> level frag \<noteq> 0
         \<and> ((\<not> paused v \<and> playbackRate v \<noteq> Fin 0) \<or> readyState v = 0)
         \<and> Fin 500 * duration frag / \<bar>playbackRate v\<bar> < requestDelay now frag
         \<and> bufferStarvationDelay B (hls s) v < Fin 2 * duration frag / \<bar>playbackRate v\<bar>
         \<and> bufferStarvationDelay B (hls s) v < fragLoadedDelay now frag l)"
  by (auto simp: abandonRulesCheck_def clearTimer_fields monitored_def emergency_switch_def
      split: option.splits if_splits sum.splits prod.splits)

theorem abandonRulesCheck_cancel_conditions_witness:
  "bwEstimator (after (abandonRulesCheck (buffer_end_is (Fin 2)) (Fin 4000) stalling))
     \<noteq> bwEstimator stalling
   \<and> (\<exists>frag v l.
         fragCurrent stalling = Some frag \<and> media (hls stalling) = Some v
         \<and> level_at (levels (hls stalling)) (level frag) = Inr l
         \<and> autoLevel frag \<and> level frag \<noteq> 0
         \<and> ((\<not> paused v \<and> playbackRate v \<noteq> Fin 0) \<or> readyState v = 0)
         \<and> Fin 500 * duration frag / \<bar>playbackRate v\<bar> < requestDelay (Fin 4000) frag
         \<and> bufferStarvationDelay (buffer_end_is (Fin 2)) (hls stalling) v
             < Fin 2 * duration frag / \<bar>playbackRate v\<bar>
         \<and> bufferStarvationDelay (buffer_end_is (Fin 2)) (hls stalling) v
             < fragLoadedDelay (Fin 4000) frag l)"
proof -
  have "bwEstimator (after (abandonRulesCheck (buffer_end_is (Fin 2)) (Fin 4000) stalling))
          \<noteq> bwEstimator stalling"
    by (simp add: abandonRulesCheck_def stalling_fields slow_frag_fields demo_fields
        demo_media_fields loader_gone_def monitored_def stalling_locals stalling_search
        less_undef_def emergency_switch_def clearTimer_fields sample_def js_ops arith_eval)
  with abandonRulesCheck_cancel_conditions [of "buffer_end_is (Fin 2)" "Fin 4000" stalling]
  show ?thesis by blast
qed

text \<open>
  C4. The search for a fallback level runs from \<open>level - 1\<close> down to 0 with
  \<open>candidateDelay = duration * bitrate / (8 * 0.8 * loadRate)\<close> and stops at the
  highest index whose delay is less than \<open>bufferStarvationDelay\<close>; when no index
  matches it ends at -1 with the delay of index 0. Once the abort condition holds, the
  switch happens exactly when the delay the loop left is less than
  \<open>fragLoadedDelay\<close>: the level assigned is the index clamped to 0 after that
  comparison, the estimator is fed the elapsed time and the bytes loaded, the loader is
  aborted, the timer is cleared and \<open>FRAG_LOAD_EMERGENCY_ABORTED\<close> is triggered
  with the fragment; otherwise nothing changes. The timer being cleared is
  \<open>disarmed\<close>: the handle is falsy afterwards and the interval it named is no
  longer scheduled.
\<close>

theorem abandonRulesCheck_fallback_search:
  "(\<forall>ls dur rate bsd hi prev k.
      hi < int (length ls) \<and> 0 \<le> k \<and> k \<le> hi
      \<and> levelNextLoadedDelay (ls ! nat k) dur rate < bsd
      \<and> (\<forall>j. k < j \<and> j \<le> hi \<longrightarrow> \<not> levelNextLoadedDelay (ls ! nat j) dur rate < bsd)
      \<longrightarrow> lowerLevelSearch (Some ls) dur rate bsd hi prev
            = Inr (k, Some (levelNextLoadedDelay (ls ! nat k) dur rate)))
   \<and> (\<forall>ls dur rate bsd hi prev.
        hi < int (length ls) \<and> 0 \<le> hi
        \<and> (\<forall>j. 0 \<le> j \<and> j \<le> hi \<longrightarrow> \<not> levelNextLoadedDelay (ls ! nat j) dur rate < bsd)
        \<longrightarrow> lowerLevelSearch (Some ls) dur rate bsd hi prev
              = Inr (- 1, Some (levelNextLoadedDelay (ls ! nat 0) dur rate)))
   \<and> (\<forall>s frag v l est n d.
        fragCurrent s = Some frag \<and> \<not> loader_gone frag \<and> media (hls s) = Some v
        \<and> monitored v frag
        \<and> Fin 500 * duration frag / \<bar>playbackRate v\<bar> < requestDelay now frag
        \<and> level_at (levels (hls s)) (level frag) = Inr l
        \<and> bufferStarvationDelay B (hls s) v < Fin 2 * duration frag / \<bar>playbackRate v\<bar>
        \<and> bufferStarvationDelay B (hls s) v < fragLoadedDelay now frag l
        \<and> bwEstimator s = Some est
        \<and> lowerLevelSearch (levels (hls s)) (duration frag) (loadRate now frag)
             (bufferStarvationDelay B (hls s) v) (level frag - 1) None = Inr (n, d)
        \<longrightarrow> (less_undef d (fragLoadedDelay now frag l)
              \<longrightarrow> (\<exists>s'. abandonRulesCheck B now s = Done s'
                     \<and> assigned_nextLoadLevel (hls s') = max 0 n
                     \<and> bwEstimator s' = Some (sample (requestDelay now frag) (loaded frag) est)
                     \<and> fragCurrent s' = Some (loader_abort frag)
                     \<and> disarmed s s'
                     \<and> triggered (hls s')
                         = triggered (hls s) @ [(FRAG_LOAD_EMERGENCY_ABORTED, loader_abort frag)]))
            \<and> (\<not> less_undef d (fragLoadedDelay now frag l)
                \<longrightarrow> abandonRulesCheck B now s = Done s))"
proof (intro conjI allI impI)
  fix ls dur rate bsd hi prev k
  assume "hi < int (length ls) \<and> 0 \<le> k \<and> k \<le> hi
      \<and> levelNextLoadedDelay (ls ! nat k) dur rate < bsd
      \<and> (\<forall>j. k < j \<and> j \<le> hi \<longrightarrow> \<not> levelNextLoadedDelay (ls ! nat j) dur rate < bsd)"
  then show "lowerLevelSearch (Some ls) dur rate bsd hi prev
            = Inr (k, Some (levelNextLoadedDelay (ls ! nat k) dur rate))"
    by (intro lowerLevelSearch_found) simp_all
next
  fix ls dur rate bsd hi prev
  assume h: "hi < int (length ls) \<and> 0 \<le> hi
        \<and> (\<forall>j. 0 \<le> j \<and> j \<le> hi \<longrightarrow> \<not> levelNextLoadedDelay (ls ! nat j) dur rate < bsd)"
  then have "lowerLevelSearch (Some ls) dur rate bsd hi prev
      = Inr (- 1, if 0 \<le> hi then Some (levelNextLoadedDelay (ls ! nat 0) dur rate) else prev)"
    by (intro lowerLevelSearch_none) simp_all
  with h show "lowerLevelSearch (Some ls) dur rate bsd hi prev
              = Inr (- 1, Some (levelNextLoadedDelay (ls ! nat 0) dur rate))"
    by simp
next
  fix s :: abr and frag v l est n d
  assume h: "fragCurrent s = Some frag \<and> \<not> loader_gone frag \<and> media (hls s) = Some v
        \<and> monitored v frag
        \<and> Fin 500 * duration frag / \<bar>playbackRate v\<bar> < requestDelay now frag
        \<and> level_at (levels (hls s)) (level frag) = Inr l
        \<and> bufferStarvationDelay B (hls s) v < Fin 2 * duration frag / \<bar>playbackRate v\<bar>
        \<and> bufferStarvationDelay B (hls s) v < fragLoadedDelay now frag l
        \<and> bwEstimator s = Some est
        \<and> lowerLevelSearch (levels (hls s)) (duration frag) (loadRate now frag)
             (bufferStarvationDelay B (hls s) v) (level frag - 1) None = Inr (n, d)"
  assume sw: "less_undef d (fragLoadedDelay now frag l)"
  from h sw
  have eq: "abandonRulesCheck B now s = emergency_switch frag (requestDelay now frag) n s"
    by (simp add: abandonRulesCheck_def)
  from h obtain s' where s': "emergency_switch frag (requestDelay now frag) n s = Done s'"
    by (simp add: emergency_switch_def Let_def)
  from s' have off: "disarmed s s'"
    by (rule emergency_switch_Done(1))
  from h s' have "assigned_nextLoadLevel (hls s') = max 0 n
      \<and> bwEstimator s' = Some (sample (requestDelay now frag) (loaded frag) est)
      \<and> fragCurrent s' = Some (loader_abort frag)
      \<and> triggered (hls s')
          = triggered (hls s) @ [(FRAG_LOAD_EMERGENCY_ABORTED, loader_abort frag)]"
    by (auto simp: emergency_switch_def Let_def clearTimer_fields trigger_def)
  with eq s' off
  show "\<exists>s'. abandonRulesCheck B now s = Done s'
                     \<and> assigned_nextLoadLevel (hls s') = max 0 n
                     \<and> bwEstimator s' = Some (sample (requestDelay now frag) (loaded frag) est)
                     \<and> fragCurrent s' = Some (loader_abort frag)
                     \<and> disarmed s s'
                     \<and> triggered (hls s')
                         = triggered (hls s) @ [(FRAG_LOAD_EMERGENCY_ABORTED, loader_abort frag)]"
    by simp
next
  fix s :: abr and frag v l est n d
  assume h: "fragCurrent s = Some frag \<and> \<not> loader_gone frag \<and> media (hls s) = Some v
        \<and> monitored v frag
        \<and> Fin 500 * duration frag / \<bar>playbackRate v\<bar> < requestDelay now frag
        \<and> level_at (levels (hls s)) (level frag) = Inr l
        \<and> bufferStarvationDelay B (hls s) v < Fin 2 * duration frag / \<bar>playbackRate v\<bar>
        \<and> bufferStarvationDelay B (hls s) v < fragLoadedDelay now frag l
        \<and> bwEstimator s = Some est
        \<and> lowerLevelSearch (levels (hls s)) (duration frag) (loadRate now frag)
             (bufferStarvationDelay B (hls s) v) (level frag - 1) None = Inr (n, d)"
  assume sw: "\<not> less_undef d (fragLoadedDelay now frag l)"
  from h sw show "abandonRulesCheck B now s = Done s"
    by (simp add: abandonRulesCheck_def)
qed

theorem abandonRulesCheck_fallback_search_witness:
  "lowerLevelSearch (levels (hls stalling)) (duration slow_frag) (loadRate (Fin 4000) slow_frag)
      (bufferStarvationDelay (buffer_end_is (Fin 2)) (hls stalling) demo_media)
      (level slow_frag - 1) None = Inr (- 1, Some (Fin (75 / 32)))
   \<and> fragLoadedDelay (Fin 4000) slow_frag (ladder ! 2) = Fin 3.5
   \<and> less_undef (Some (Fin (75 / 32))) (fragLoadedDelay (Fin 4000) slow_frag (ladder ! 2))
   \<and> (\<exists>s'. abandonRulesCheck (buffer_end_is (Fin 2)) (Fin 4000) stalling = Done s'
          \<and> assigned_nextLoadLevel (hls s') = 0
          \<and> bwEstimator s'
              = Some \<lparr>ewma_slow = Fin 15, ewma_fast = Fin 4, default_estimate = Fin 500000,
                       samples = [(Fin 4000, Fin 800000)]\<rparr>
          \<and> fragCurrent s' = Some (loader_abort slow_frag)
          \<and> \<not> truthy_timer (timer s') \<and> intervals s' = []
          \<and> triggered (hls s') = [(FRAG_LOAD_EMERGENCY_ABORTED, loader_abort slow_frag)])"
proof -
  let ?B = "buffer_end_is (Fin 2)"
  let ?est = "\<lparr>ewma_slow = Fin 15, ewma_fast = Fin 4, default_estimate = Fin 500000,
                samples = []\<rparr>"
  have search: "lowerLevelSearch (levels (hls stalling)) (duration slow_frag)
      (loadRate (Fin 4000) slow_frag) (bufferStarvationDelay ?B (hls stalling) demo_media)
      (level slow_frag - 1) None = Inr (- 1, Some (Fin (75 / 32)))"
    by (simp add: stalling_fields slow_frag_fields demo_fields stalling_locals stalling_search)
  have hyps: "fragCurrent stalling = Some slow_frag \<and> \<not> loader_gone slow_frag
        \<and> media (hls stalling) = Some demo_media
        \<and> monitored demo_media slow_frag
        \<and> Fin 500 * duration slow_frag / \<bar>playbackRate demo_media\<bar>
            < requestDelay (Fin 4000) slow_frag
        \<and> level_at (levels (hls stalling)) (level slow_frag) = Inr (ladder ! 2)
        \<and> bufferStarvationDelay ?B (hls stalling) demo_media
            < Fin 2 * duration slow_frag / \<bar>playbackRate demo_media\<bar>
        \<and> bufferStarvationDelay ?B (hls stalling) demo_media
            < fragLoadedDelay (Fin 4000) slow_frag (ladder ! 2)
        \<and> bwEstimator stalling = Some ?est"
    by (simp add: stalling_fields slow_frag_fields demo_fields demo_media_fields stalling_locals
        loader_gone_def monitored_def js_ops arith_eval)
  have sw: "less_undef (Some (Fin (75 / 32))) (fragLoadedDelay (Fin 4000) slow_frag (ladder ! 2))"
    by (simp add: less_undef_def stalling_locals js_ops arith_eval)
  from abandonRulesCheck_fallback_search [of "Fin 4000" ?B, THEN conjunct2, THEN conjunct2,
      rule_format, of stalling slow_frag demo_media "ladder ! 2" ?est "- 1" "Some (Fin (75 / 32))",
      THEN conjunct1, rule_format] hyps search sw
  have "\<exists>s'. abandonRulesCheck ?B (Fin 4000) stalling = Done s'
          \<and> assigned_nextLoadLevel (hls s') = max 0 (- 1)
          \<and> bwEstimator s'
              = Some (sample (requestDelay (Fin 4000) slow_frag) (loaded slow_frag) ?est)
          \<and> fragCurrent s' = Some (loader_abort slow_frag)
          \<and> disarmed stalling s'
          \<and> triggered (hls s')
              = triggered (hls stalling) @ [(FRAG_LOAD_EMERGENCY_ABORTED, loader_abort slow_frag)]"
    by blast
  then have "\<exists>s'. abandonRulesCheck ?B (Fin 4000) stalling = Done s'
          \<and> assigned_nextLoadLevel (hls s') = 0
          \<and> bwEstimator s'
              = Some \<lparr>ewma_slow = Fin 15, ewma_fast = Fin 4, default_estimate = Fin 500000,
                       samples = [(Fin 4000, Fin 800000)]\<rparr>
          \<and> fragCurrent s' = Some (loader_abort slow_frag)
          \<and> \<not> truthy_timer (timer s') \<and> intervals s' = []
          \<and> triggered (hls s') = [(FRAG_LOAD_EMERGENCY_ABORTED, loader_abort slow_frag)]"
    by (auto simp: sample_def stalling_locals slow_frag_fields stalling_fields demo_hls_def
        disarmed_def truthy_timer_def)
  with search sw show ?thesis
    by (simp add: stalling_locals)
qed

subsection \<open>Monotonicity in the estimate\<close>

text \<open>
  C5, as stated, fails. In the session above with 1 s of available fetch time, the estimate
  2000 kbit/s selects level 2 (no level passes the first loop, level 2 passes the second),
  and the higher estimate 4000 kbit/s selects level 0 (the only level that passes the first
  loop).
\<close>

theorem selection_not_monotonic:
  "get_nextAutoLevel (buffer_end_is (Fin 13)) (estimate_is (Fin 2000000)) monitoring = Inr 2
   \<and> get_nextAutoLevel (buffer_end_is (Fin 13)) (estimate_is (Fin 4000000)) monitoring = Inr 0"
proof
  have "comfortableScan (Some ladder) (Fin 6) (Fin 2000000) (Fin 1) 2 = Inr None"
    by (simp add: comfortableScan.simps level_at_def at_index_def ladder_def fetchTime_def js_ops arith_eval)
  moreover have "recoveryScan (Some ladder) (Fin 6) (Fin 2000000) (Fin 1) 2 = Inr (Some 2)"
    by (simp add: recoveryScan.simps level_at_def at_index_def ladder_def fetchTime_def
        timeRecovered_def js_ops arith_eval)
  ultimately
  show "get_nextAutoLevel (buffer_end_is (Fin 13)) (estimate_is (Fin 2000000)) monitoring = Inr 2"
    by (simp add: get_nextAutoLevel_def monitoring_fields demo_fields monitoring_aft
        monitoring_maxAutoLevel estimate_is_def js_ops arith_eval)
next
  have "comfortableScan (Some ladder) (Fin 6) (Fin 4000000) (Fin 1) 2 = Inr (Some 0)"
    by (simp add: comfortableScan.simps level_at_def at_index_def ladder_def fetchTime_def js_ops arith_eval)
  then
  show "get_nextAutoLevel (buffer_end_is (Fin 13)) (estimate_is (Fin 4000000)) monitoring = Inr 0"
    by (simp add: get_nextAutoLevel_def monitoring_fields demo_fields monitoring_aft
        monitoring_maxAutoLevel estimate_is_def js_ops arith_eval)
qed

text \<open>
  C5, amended. For a fixed ladder with bitrates that are not negative, a fixed cap inside
  the ladder, a fragment duration that is not negative, a fixed buffer state and playback
  rate and no forced level, and for estimates \<open>0 < e1 \<le> e2\<close>: the level the
  getter returns under \<open>e2\<close> is at least the level it returns under
  \<open>e1\<close>, provided the available fetch time is not positive, or the first loop
  returns a level under \<open>e1\<close>, or the first loop returns no level under
  \<open>e2\<close>.
\<close>

theorem selection_monotonic_same_scan:
  assumes "u_nextAutoLevel s = - 1" and "bwEstimator s = Some est"
    and "fragCurrent s = Some frag" and "levels (hls s) = Some ls"
    and "maxAutoLevel s < int (length ls)"
    and "duration frag = Fin d" and "0 \<le> d"
    and "\<forall>l \<in> set ls. \<exists>b. bitrate l = Fin b \<and> 0 \<le> b"
    and "E1 est = Fin e1" and "E2 est = Fin e2" and "0 < e1" and "e1 \<le> e2"
    and "\<not> Fin 0 < availableFetchTime B (hls s) frag
         \<or> comfortableScan (Some ls) (Fin d) (Fin e1) (availableFetchTime B (hls s) frag)
              (maxAutoLevel s) \<noteq> Inr None
         \<or> comfortableScan (Some ls) (Fin d) (Fin e2) (availableFetchTime B (hls s) frag)
              (maxAutoLevel s) = Inr None"
  shows "\<exists>a b. get_nextAutoLevel B E1 s = Inr a \<and> get_nextAutoLevel B E2 s = Inr b \<and> a \<le> b"
proof -
  let ?aft = "availableFetchTime B (hls s) frag"
  let ?hi = "maxAutoLevel s"
  have ft: "fetchTime (ls ! nat j) (Fin d) (Fin e2) \<le> fetchTime (ls ! nat j) (Fin d) (Fin e1)"
    if j: "0 \<le> j \<and> j \<le> ?hi" for j
  proof -
    from j assms(5) have "nat j < length ls" by linarith
    then have "ls ! nat j \<in> set ls" by (rule nth_mem)
    with assms(8) obtain b where b: "bitrate (ls ! nat j) = Fin b" "0 \<le> b" by blast
    from b assms(7,11,12) show ?thesis by (rule fetchTime_antimono)
  qed
  have cm: "\<forall>j. 0 \<le> j \<and> j \<le> ?hi \<longrightarrow> fetchTime (ls ! nat j) (Fin d) (Fin e1) < ?aft
            \<longrightarrow> fetchTime (ls ! nat j) (Fin d) (Fin e2) < ?aft"
    using ft comfortable_test_mono by blast
  have rm: "\<forall>j. 0 \<le> j \<and> j \<le> ?hi
            \<longrightarrow> Fin 0 < Fin 0.5 * ?aft + timeRecovered (ls ! nat j) (Fin d) (Fin e1)
            \<longrightarrow> Fin 0 < Fin 0.5 * ?aft + timeRecovered (ls ! nat j) (Fin d) (Fin e2)"
    unfolding timeRecovered_def using ft recovery_test_mono by blast
  obtain c1 where c1: "comfortableScan (Some ls) (Fin d) (Fin e1) ?aft ?hi = Inr c1"
    using comfortableScan_range [OF assms(5)] by blast
  obtain c2 where c2: "comfortableScan (Some ls) (Fin d) (Fin e2) ?aft ?hi = Inr c2"
    using comfortableScan_range [OF assms(5)] by blast
  obtain r1 where r1: "recoveryScan (Some ls) (Fin d) (Fin e1) ?aft ?hi = Inr r1"
    and r1b: "\<forall>a. r1 = Some a \<longrightarrow> 0 \<le> a \<and> a \<le> ?hi"
    using recoveryScan_range [OF assms(5)] by blast
  obtain r2 where r2: "recoveryScan (Some ls) (Fin d) (Fin e2) ?aft ?hi = Inr r2"
    and r2b: "\<forall>a. r2 = Some a \<longrightarrow> 0 \<le> a \<and> a \<le> ?hi"
    using recoveryScan_range [OF assms(5)] by blast
  have g1: "get_nextAutoLevel B E1 s =
      (case (if Fin 0 < ?aft then Inr c1 else Inr None) of
         Inl e \<Rightarrow> Inl e | Inr (Some i) \<Rightarrow> Inr i
       | Inr None \<Rightarrow> (case r1 of Some i \<Rightarrow> Inr i | None \<Rightarrow> Inr 0))"
    using assms(1-4,6,9) c1 r1 by (simp add: get_nextAutoLevel_def split: option.splits)
  have g2: "get_nextAutoLevel B E2 s =
      (case (if Fin 0 < ?aft then Inr c2 else Inr None) of
         Inl e \<Rightarrow> Inl e | Inr (Some i) \<Rightarrow> Inr i
       | Inr None \<Rightarrow> (case r2 of Some i \<Rightarrow> Inr i | None \<Rightarrow> Inr 0))"
    using assms(1-4,6,10) c2 r2 by (simp add: get_nextAutoLevel_def split: option.splits)
  have rec: "\<exists>a b. (case r1 of Some i \<Rightarrow> Inr i | None \<Rightarrow> (Inr 0 :: error + int)) = Inr a
        \<and> (case r2 of Some i \<Rightarrow> Inr i | None \<Rightarrow> (Inr 0 :: error + int)) = Inr b \<and> a \<le> b"
  proof (cases r1)
    case None
    with r2b show ?thesis by (cases r2) auto
  next
    case (Some a)
    with recoveryScan_mono [OF assms(5) rm] r1
    obtain b where "recoveryScan (Some ls) (Fin d) (Fin e2) ?aft ?hi = Inr (Some b)" "a \<le> b"
      by blast
    with r2 Some show ?thesis by auto
  qed
  show ?thesis
  proof (cases "Fin 0 < ?aft")
    case False
    with g1 g2 rec show ?thesis by simp
  next
    case True
    note pos = this
    show ?thesis
    proof (cases c1)
      case (Some a)
      with comfortableScan_mono [OF assms(5) cm] c1
      obtain b where "comfortableScan (Some ls) (Fin d) (Fin e2) ?aft ?hi = Inr (Some b)" "a \<le> b"
        by blast
      with c2 Some g1 g2 pos show ?thesis by auto
    next
      case None
      with assms(13) pos c1 c2 have "c2 = None" by simp
      with None g1 g2 pos rec show ?thesis by simp
    qed
  qed
qed

theorem selection_monotonic_same_scan_witness:
  "u_nextAutoLevel monitoring = - 1
   \<and> maxAutoLevel monitoring < int (length ladder)
   \<and> comfortableScan (Some ladder) (Fin 6) (Fin 1500000)
        (availableFetchTime (buffer_end_is (Fin 17)) (hls monitoring) demo_frag)
        (maxAutoLevel monitoring) = Inr (Some 1)
   \<and> (\<exists>a b. get_nextAutoLevel (buffer_end_is (Fin 17)) (estimate_is (Fin 1500000)) monitoring
               = Inr a
            \<and> get_nextAutoLevel (buffer_end_is (Fin 17)) (estimate_is (Fin 3000000)) monitoring
               = Inr b
            \<and> a \<le> b)"
proof -
  let ?B = "buffer_end_is (Fin 17)"
  let ?est = "\<lparr>ewma_slow = Fin 15, ewma_fast = Fin 4, default_estimate = Fin 500000,
                samples = []\<rparr>"
  have scan: "comfortableScan (Some ladder) (Fin 6) (Fin 1500000)
        (availableFetchTime ?B (hls monitoring) demo_frag) (maxAutoLevel monitoring)
      = Inr (Some 1)"
    by (simp add: monitoring_fields monitoring_aft monitoring_maxAutoLevel comfortableScan.simps
        level_at_def at_index_def ladder_def fetchTime_def js_ops arith_eval)
  have side: "\<not> Fin 0 < availableFetchTime ?B (hls monitoring) demo_frag
         \<or> comfortableScan (Some ladder) (Fin 6) (Fin 1500000)
              (availableFetchTime ?B (hls monitoring) demo_frag) (maxAutoLevel monitoring)
            \<noteq> Inr None
         \<or> comfortableScan (Some ladder) (Fin 6) (Fin 3000000)
              (availableFetchTime ?B (hls monitoring) demo_frag) (maxAutoLevel monitoring)
            = Inr None"
    using scan by simp
  have rates: "\<forall>l \<in> set ladder. \<exists>b. bitrate l = Fin b \<and> 0 \<le> b"
    by (simp add: ladder_def)
  have "\<exists>a b. get_nextAutoLevel ?B (estimate_is (Fin 1500000)) monitoring = Inr a
            \<and> get_nextAutoLevel ?B (estimate_is (Fin 3000000)) monitoring = Inr b \<and> a \<le> b"
    by (rule selection_monotonic_same_scan [where est = ?est and frag = demo_frag
          and ls = ladder and d = 6 and ?e1.0 = 1500000 and ?e2.0 = 3000000, OF _ _ _ _ _ _ _ rates _ _ _ _ side])
       (simp_all add: monitoring_fields demo_fields monitoring_maxAutoLevel estimate_is_def)
  with scan show ?thesis
    by (simp add: monitoring_fields demo_fields monitoring_maxAutoLevel)
qed

subsection \<open>The end of a request\<close>

text \<open>
  C6, as stated, fails: the controller keeps its reference to the fragment. After the
  fragment of the session is loaded, after a load error, and after the emergency abort of
  the stalling download, \<open>fragCurrent\<close> is still that fragment.
\<close>

theorem reference_kept_after_completion:
  "fragCurrent (after (onFragLoaded (Fin 3000) demo_frag demo_stats monitoring)) = Some demo_frag
   \<and> fragCurrent (onError FRAG_LOAD_ERROR monitoring) = Some demo_frag
   \<and> fragCurrent (after (abandonRulesCheck (buffer_end_is (Fin 2)) (Fin 4000) stalling))
       = Some (loader_abort slow_frag)"
  by (simp add: stalling_tick_fragCurrent onError_def clearTimer_fields monitoring_fields
      onFragLoaded_def demo_frag_fields demo_stats_fields)

text \<open>
  C6, amended. The timer is disarmed (\<open>this.timer\<close> is falsy and the interval it
  named is no longer scheduled) on each transition that ends the monitored request: when
  \<open>onFragLoaded\<close> returns for a main fragment, on \<open>FRAG_LOAD_ERROR\<close>
  and \<open>FRAG_LOAD_TIMEOUT\<close>, and when the abandonment check triggers its event.
  The reference \<open>fragCurrent\<close> is kept on each of them (after the abort it is the
  fragment whose loader was aborted). No other operation replaces it either:
  \<open>onFragLoaded\<close> whether it returns or throws, \<open>onError\<close> with any
  details, a tick of the abandonment check that triggers no event, the two setters,
  \<open>destroy\<close>, \<open>onFragLoading\<close> of a fragment that is not a main one and
  an \<open>onFragLoading\<close> that throws all leave it as it was. An
  \<open>onFragLoading\<close> of a main fragment that returns sets it to that fragment,
  stamped with the time of the request.
\<close>

theorem timer_disarmed_on_every_end:
  "(frag_type frag = ''main'' \<and> onFragLoaded now frag st s = Done s'
      \<longrightarrow> disarmed s s' \<and> fragCurrent s' = fragCurrent s)
   \<and> (d = FRAG_LOAD_ERROR \<or> d = FRAG_LOAD_TIMEOUT
      \<longrightarrow> disarmed s (onError d s) \<and> fragCurrent (onError d s) = fragCurrent s)
   \<and> (abandonRulesCheck B t s = Done s'' \<and> triggered (hls s'') \<noteq> triggered (hls s)
      \<longrightarrow> disarmed s s''
          \<and> (\<exists>f. fragCurrent s = Some f \<and> fragCurrent s'' = Some (loader_abort f)))
   \<and> fragCurrent (after (onFragLoaded now frag st s)) = fragCurrent s
   \<and> fragCurrent (onError d' s) = fragCurrent s
   \<and> (triggered (hls (after (abandonRulesCheck B t s))) = triggered (hls s)
      \<longrightarrow> fragCurrent (after (abandonRulesCheck B t s)) = fragCurrent s)
   \<and> fragCurrent (set_autoLevelCapping n s) = fragCurrent s
   \<and> fragCurrent (set_nextAutoLevel n s) = fragCurrent s
   \<and> fragCurrent (destroy s) = fragCurrent s
   \<and> (frag_type frag \<noteq> ''main'' \<longrightarrow> onFragLoading now frag s = Done s)
   \<and> (\<forall>e s1. onFragLoading now frag s = Threw e s1 \<longrightarrow> fragCurrent s1 = fragCurrent s)
   \<and> (\<forall>s1. frag_type frag = ''main'' \<and> onFragLoading now frag s = Done s1
         \<longrightarrow> fragCurrent s1 = Some (frag\<lparr>trequest := now\<rparr>))"
proof (intro conjI impI allI)
  assume "frag_type frag = ''main'' \<and> onFragLoaded now frag st s = Done s'"
  then show "disarmed s s'" and "fragCurrent s' = fragCurrent s"
    using onFragLoaded_main_Done by blast+
next
  assume "d = FRAG_LOAD_ERROR \<or> d = FRAG_LOAD_TIMEOUT"
  then show "disarmed s (onError d s)" by (rule onError_disarmed)
  show "fragCurrent (onError d s) = fragCurrent s" by (rule onError_fragCurrent)
next
  assume "abandonRulesCheck B t s = Done s'' \<and> triggered (hls s'') \<noteq> triggered (hls s)"
  then obtain f elapsed n where f: "fragCurrent s = Some f"
    and sw: "emergency_switch f elapsed n s = Done s''"
    using abandonRulesCheck_event by blast
  from sw show "disarmed s s''" by (rule emergency_switch_Done(1))
  from f sw show "\<exists>f. fragCurrent s = Some f \<and> fragCurrent s'' = Some (loader_abort f)"
    by (simp add: emergency_switch_Done(2))
next
  show "fragCurrent (after (onFragLoaded now frag st s)) = fragCurrent s"
    by (rule onFragLoaded_fragCurrent)
next
  show "fragCurrent (onError d' s) = fragCurrent s" by (rule onError_fragCurrent)
next
  assume "triggered (hls (after (abandonRulesCheck B t s))) = triggered (hls s)"
  then show "fragCurrent (after (abandonRulesCheck B t s)) = fragCurrent s"
    by (rule abandonRulesCheck_quiet)
next
  show "fragCurrent (set_autoLevelCapping n s) = fragCurrent s"
    by (simp add: set_autoLevelCapping_def)
next
  show "fragCurrent (set_nextAutoLevel n s) = fragCurrent s"
    by (simp add: set_nextAutoLevel_def)
next
  show "fragCurrent (destroy s) = fragCurrent s"
    by (simp add: destroy_def clearTimer_fields)
next
  assume "frag_type frag \<noteq> ''main''"
  then show "onFragLoading now frag s = Done s" by (simp add: onFragLoading_def)
next
  fix e s1 assume "onFragLoading now frag s = Threw e s1"
  then show "fragCurrent s1 = fragCurrent s" by (rule onFragLoading_Threw_fragCurrent)
next
  fix s1 assume "frag_type frag = ''main'' \<and> onFragLoading now frag s = Done s1"
  then show "fragCurrent s1 = Some (frag\<lparr>trequest := now\<rparr>)"
    using onFragLoading_main_Done_fragCurrent by blast
qed

theorem timer_disarmed_on_every_end_witness:
  "frag_type demo_frag = ''main''
   \<and> onFragLoaded (Fin 3000) demo_frag demo_stats monitoring
       = Done (after (onFragLoaded (Fin 3000) demo_frag demo_stats monitoring))
   \<and> truthy_timer (timer monitoring) \<and> intervals monitoring = [1]
   \<and> \<not> truthy_timer (timer (after (onFragLoaded (Fin 3000) demo_frag demo_stats monitoring)))
   \<and> intervals (after (onFragLoaded (Fin 3000) demo_frag demo_stats monitoring)) = []
   \<and> fragCurrent (after (onFragLoaded (Fin 3000) demo_frag demo_stats monitoring))
       = fragCurrent monitoring
   \<and> \<not> truthy_timer (timer (onError FRAG_LOAD_TIMEOUT monitoring))
   \<and> intervals (onError FRAG_LOAD_TIMEOUT monitoring) = []
   \<and> fragCurrent (onError FRAG_LOAD_TIMEOUT monitoring) = fragCurrent monitoring
   \<and> onFragLoading (Fin 0) demo_frag (constructor demo_hls) = Done monitoring
   \<and> fragCurrent (constructor demo_hls) = None
   \<and> fragCurrent monitoring = Some (demo_frag\<lparr>trequest := Fin 0\<rparr>)"
proof -
  note t = timer_disarmed_on_every_end [of demo_frag "Fin 3000" demo_stats monitoring
      "after (onFragLoaded (Fin 3000) demo_frag demo_stats monitoring)" FRAG_LOAD_TIMEOUT]
  from t [THEN conjunct1] monitoring_loaded_Done
  have "disarmed monitoring (after (onFragLoaded (Fin 3000) demo_frag demo_stats monitoring))
      \<and> fragCurrent (after (onFragLoaded (Fin 3000) demo_frag demo_stats monitoring))
          = fragCurrent monitoring"
    by (simp add: demo_frag_fields)
  moreover from t [THEN conjunct2, THEN conjunct1]
  have "disarmed monitoring (onError FRAG_LOAD_TIMEOUT monitoring)
      \<and> fragCurrent (onError FRAG_LOAD_TIMEOUT monitoring) = fragCurrent monitoring"
    by simp
  moreover have "onFragLoading (Fin 0) demo_frag (constructor demo_hls) = Done monitoring"
    by (rule monitoring_Done)
  ultimately show ?thesis
    using monitoring_loaded_Done
    by (simp add: disarmed_def monitoring_fields demo_frag_fields truthy_timer_def
        constructor_def demo_frag_def)
qed

subsection \<open>The forced level\<close>

text \<open>
  C7. While \<open>_nextAutoLevel\<close> is not -1 the getter returns
  \<open>min(_nextAutoLevel, maxAutoLevel)\<close>, whatever the estimator, the buffer helper
  and the rest of the state are. When \<open>onFragLoaded\<close> returns for a main fragment
  \<open>_nextAutoLevel\<close> is -1; a fragment of another type, \<open>onFragLoading\<close>
  and \<open>onError\<close> leave it as it is.
\<close>

theorem forced_next_one_shot:
  "(u_nextAutoLevel s \<noteq> - 1
      \<longrightarrow> get_nextAutoLevel B E s = Inr (min (u_nextAutoLevel s) (maxAutoLevel s)))
   \<and> (frag_type frag = ''main'' \<and> onFragLoaded now frag st s = Done s'
      \<longrightarrow> u_nextAutoLevel s' = - 1)
   \<and> (frag_type frag \<noteq> ''main'' \<longrightarrow> onFragLoaded now frag st s = Done s)
   \<and> u_nextAutoLevel (after (onFragLoading now frag s)) = u_nextAutoLevel s
   \<and> u_nextAutoLevel (onError d s) = u_nextAutoLevel s"
proof (intro conjI impI)
  assume "u_nextAutoLevel s \<noteq> - 1"
  then show "get_nextAutoLevel B E s = Inr (min (u_nextAutoLevel s) (maxAutoLevel s))"
    by (simp add: get_nextAutoLevel_def)
next
  assume "frag_type frag = ''main'' \<and> onFragLoaded now frag st s = Done s'"
  then show "u_nextAutoLevel s' = - 1"
    using onFragLoaded_main_Done(3) by blast
next
  assume "frag_type frag \<noteq> ''main''"
  then show "onFragLoaded now frag st s = Done s"
    by (simp add: onFragLoaded_def)
next
  show "u_nextAutoLevel (after (onFragLoading now frag s)) = u_nextAutoLevel s"
    by (simp add: onFragLoading_def lazy_init_def setInterval_def Let_def
        split: option.splits sum.splits)
next
  show "u_nextAutoLevel (onError d s) = u_nextAutoLevel s"
    by (cases d) (simp_all add: onError_def clearTimer_fields)
qed

theorem forced_next_one_shot_witness:
  "u_nextAutoLevel forced \<noteq> - 1
   \<and> get_nextAutoLevel (buffer_end_is (Fin 17)) (estimate_is (Fin 1500000)) forced = Inr 2
   \<and> frag_type demo_frag = ''main''
   \<and> onFragLoaded (Fin 3000) demo_frag demo_stats forced
       = Done (after (onFragLoaded (Fin 3000) demo_frag demo_stats forced))
   \<and> u_nextAutoLevel (after (onFragLoaded (Fin 3000) demo_frag demo_stats forced)) = - 1"
proof -
  note t = forced_next_one_shot [of forced "buffer_end_is (Fin 17)" "estimate_is (Fin 1500000)"
      demo_frag "Fin 3000" demo_stats
      "after (onFragLoaded (Fin 3000) demo_frag demo_stats forced)"]
  from t [THEN conjunct1]
  have "get_nextAutoLevel (buffer_end_is (Fin 17)) (estimate_is (Fin 1500000)) forced = Inr 2"
    by (simp add: forced_fields)
  moreover from t [THEN conjunct2, THEN conjunct1] forced_loaded_Done
  have "u_nextAutoLevel (after (onFragLoaded (Fin 3000) demo_frag demo_stats forced)) = - 1"
    by (simp add: demo_frag_fields)
  ultimately show ?thesis
    using forced_loaded_Done by (simp add: forced_fields demo_frag_fields)
qed

subsection \<open>Feeding the estimator\<close>

text \<open>
  C8. \<open>onFragLoaded\<close> of a main fragment feeds the estimator the sample
  (\<open>now - stats.trequest\<close>, \<open>stats.loaded\<close>) when
  \<open>stats.aborted\<close> is undefined and \<open>frag.loadCounter\<close> is 1 (the
  estimator being constructed); otherwise the estimator is as before. In both cases the
  timer is disarmed (\<open>this.timer\<close> is falsy and the interval it named is no
  longer scheduled) and \<open>lastLoadedFragLevel\<close> is the level of the fragment.
\<close>

theorem onFragLoaded_estimator_frame:
  "(frag_type frag = ''main'' \<and> stats_aborted st = None \<and> loadCounter frag = 1
      \<and> bwEstimator s = Some est
      \<longrightarrow> (\<exists>s'. onFragLoaded now frag st s = Done s'
             \<and> bwEstimator s' = Some (sample (now - stats_trequest st) (stats_loaded st) est)
             \<and> disarmed s s'
             \<and> lastLoadedFragLevel s' = level frag))
   \<and> (frag_type frag = ''main'' \<and> \<not> (stats_aborted st = None \<and> loadCounter frag = 1)
      \<longrightarrow> (\<exists>s'. onFragLoaded now frag st s = Done s'
             \<and> bwEstimator s' = bwEstimator s
             \<and> disarmed s s'
             \<and> lastLoadedFragLevel s' = level frag))"
proof (intro conjI impI)
  assume h: "frag_type frag = ''main'' \<and> stats_aborted st = None \<and> loadCounter frag = 1
      \<and> bwEstimator s = Some est"
  then obtain s' where s': "onFragLoaded now frag st s = Done s'"
    by (simp add: onFragLoaded_def)
  with h have "disarmed s s'" and "lastLoadedFragLevel s' = level frag"
    using onFragLoaded_main_Done by blast+
  moreover from h s'
  have "bwEstimator s' = Some (sample (now - stats_trequest st) (stats_loaded st) est)"
    by (auto simp: onFragLoaded_def clearTimer_fields)
  ultimately show "\<exists>s'. onFragLoaded now frag st s = Done s'
             \<and> bwEstimator s' = Some (sample (now - stats_trequest st) (stats_loaded st) est)
             \<and> disarmed s s'
             \<and> lastLoadedFragLevel s' = level frag"
    using s' by simp
next
  assume h: "frag_type frag = ''main'' \<and> \<not> (stats_aborted st = None \<and> loadCounter frag = 1)"
  then obtain s' where s': "onFragLoaded now frag st s = Done s'"
    by (auto simp: onFragLoaded_def)
  with h have "disarmed s s'" and "lastLoadedFragLevel s' = level frag"
    using onFragLoaded_main_Done by blast+
  moreover from h s' have "bwEstimator s' = bwEstimator s"
    by (auto simp: onFragLoaded_def clearTimer_fields)
  ultimately show "\<exists>s'. onFragLoaded now frag st s = Done s'
             \<and> bwEstimator s' = bwEstimator s
             \<and> disarmed s s'
             \<and> lastLoadedFragLevel s' = level frag"
    using s' by simp
qed

theorem onFragLoaded_estimator_frame_witness:
  "frag_type demo_frag = ''main'' \<and> stats_aborted demo_stats = None \<and> loadCounter demo_frag = 1
   \<and> truthy_timer (timer monitoring) \<and> intervals monitoring = [1]
   \<and> (\<exists>s'. onFragLoaded (Fin 3000) demo_frag demo_stats monitoring = Done s'
          \<and> bwEstimator s'
              = Some \<lparr>ewma_slow = Fin 15, ewma_fast = Fin 4, default_estimate = Fin 500000,
                       samples = [(Fin 3000, Fin 1500000)]\<rparr>
          \<and> \<not> truthy_timer (timer s') \<and> intervals s' = []
          \<and> lastLoadedFragLevel s' = 2)"
  using onFragLoaded_estimator_frame [of demo_frag demo_stats monitoring
      "\<lparr>ewma_slow = Fin 15, ewma_fast = Fin 4, default_estimate = Fin 500000, samples = []\<rparr>"
      "Fin 3000", THEN conjunct1]
  by (simp add: demo_frag_fields demo_stats_fields monitoring_fields sample_def disarmed_def
      truthy_timer_def js_ops arith_eval)

subsection \<open>When the getter returns\<close>

text \<open>
  C9 does not hold of the code. On a new controller (no forced level, no estimator, no
  current fragment) the getter does not return a level: it throws a \<open>TypeError\<close> on
  \<open>this.bwEstimator.getEstimate()\<close>. The same getter guards \<open>hls.levels\<close>
  and \<open>hls.media\<close> for that state and ends in a return of 0 as a last resort;
  \<open>this.bwEstimator\<close> and \<open>this.fragCurrent\<close> it reads unguarded.
\<close>

theorem nextAutoLevel_throws_before_first_fragment:
  "u_nextAutoLevel (constructor demo_hls) = - 1
   \<and> bwEstimator (constructor demo_hls) = None
   \<and> fragCurrent (constructor demo_hls) = None
   \<and> get_nextAutoLevel (buffer_end_is (Fin 0)) (estimate_is (Fin 500000)) (constructor demo_hls)
       = Inl (TypeError BwEstimator)"
  by (simp add: get_nextAutoLevel_def constructor_def)

subsection \<open>The armed timer\<close>

lemma onFragLoading_armed_keeps_timer:
  assumes "truthy_timer (timer s)"
  shows "timer (after (onFragLoading now frag s)) = timer s"
    and "intervals (after (onFragLoading now frag s)) = intervals s"
  using assms
  by (auto simp: onFragLoading_def lazy_init_def Let_def split: option.splits sum.splits)

lemma clearTimer_idle: "\<not> truthy_timer (timer s) \<Longrightarrow> clearTimer s = s"
  by (simp add: clearTimer_def)

text \<open>
  C10 does not hold of the code. \<open>onFragLoading\<close> arms the timer before it reads
  \<open>hls.levels[level].details.live\<close> to construct the estimator, and assigns
  \<open>fragCurrent\<close> after it. On a new controller a main \<open>FRAG_LOADING\<close> that
  names level 7 of the three-level ladder, or level 2 of a ladder whose playlists are not
  loaded, throws at that read: the timer is armed and its interval scheduled, with no
  estimator and no current fragment, and the tick that follows throws on
  \<open>frag.loader\<close>.
\<close>

theorem armed_timer_without_estimator:
  "onFragLoading (Fin 0) stray_frag (constructor demo_hls)
     = Threw (TypeError (LevelAt 7)) orphaned
   \<and> truthy_timer (timer orphaned) \<and> intervals orphaned = [1]
   \<and> bwEstimator orphaned = None \<and> fragCurrent orphaned = None
   \<and> abandonRulesCheck (buffer_end_is (Fin 2)) (Fin 100) orphaned
       = Threw (TypeError FragCurrent) orphaned
   \<and> onFragLoading (Fin 0) demo_frag (constructor pending_hls)
       = Threw (TypeError (DetailsAt 2)) orphaned_pending
   \<and> truthy_timer (timer orphaned_pending) \<and> intervals orphaned_pending = [1]
   \<and> bwEstimator orphaned_pending = None \<and> fragCurrent orphaned_pending = None
   \<and> abandonRulesCheck (buffer_end_is (Fin 2)) (Fin 100) orphaned_pending
       = Threw (TypeError FragCurrent) orphaned_pending"
proof -
  have "onFragLoading (Fin 0) stray_frag (constructor demo_hls)
      = Threw (TypeError (LevelAt 7)) orphaned"
    by (simp add: onFragLoading_def stray_frag_def demo_frag_def constructor_def orphaned_def
        truthy_timer_def setInterval_def lazy_init_def level_at_def at_index_def demo_hls_def
        ladder_def)
  moreover have "onFragLoading (Fin 0) demo_frag (constructor pending_hls)
      = Threw (TypeError (DetailsAt 2)) orphaned_pending"
    by (simp add: onFragLoading_def demo_frag_def constructor_def orphaned_pending_def
        truthy_timer_def setInterval_def lazy_init_def level_at_def at_index_def pending_hls_def
        demo_hls_def pending_ladder_def)
  moreover have "truthy_timer (timer orphaned) \<and> intervals orphaned = [1]
      \<and> bwEstimator orphaned = None \<and> fragCurrent orphaned = None"
    by (simp add: orphaned_def constructor_def truthy_timer_def)
  moreover have "truthy_timer (timer orphaned_pending) \<and> intervals orphaned_pending = [1]
      \<and> bwEstimator orphaned_pending = None \<and> fragCurrent orphaned_pending = None"
    by (simp add: orphaned_pending_def constructor_def truthy_timer_def)
  moreover have "abandonRulesCheck (buffer_end_is (Fin 2)) (Fin 100) orphaned
      = Threw (TypeError FragCurrent) orphaned"
    by (simp add: abandonRulesCheck_def orphaned_def constructor_def)
  moreover have "abandonRulesCheck (buffer_end_is (Fin 2)) (Fin 100) orphaned_pending
      = Threw (TypeError FragCurrent) orphaned_pending"
    by (simp add: abandonRulesCheck_def orphaned_pending_def constructor_def)
  ultimately show ?thesis by simp
qed

end
